theory Spec2Isabelle
  imports Main "HOL-Library.AList" "HOL-Library.Multiset"
begin

section \<open>The balanced-ternary circuit engine of \<open>core/logic.py\<close>\<close>

text \<open>
  The engine is embedded as it is written. Python objects become records, a dictionary
  becomes an association list in insertion order (\<open>d[k] = v\<close> is \<^const>\<open>AList.update\<close>:
  an existing key keeps its place, a new key goes to the end), and a method that mutates
  its object becomes a function from the object to an optional exception together with the
  object as the method leaves it. An exception does not undo the writes made before it, so
  the state is returned in both cases.
\<close>

subsection \<open>Exceptions\<close>

text \<open>
  The source raises \<open>KeyError\<close> when a dictionary lookup misses and \<open>ValueError\<close> from its
  own checks. The constructors below keep apart the places where they are raised:
  \<^item> \<open>DuplicateIdError\<close>: the \<open>ValueError\<close> of \<open>Circuit.add\<close>;
  \<^item> \<open>UnknownComponentError\<close>: a \<open>KeyError\<close> of \<open>self.components[...]\<close>;
  \<^item> \<open>UnknownPortError\<close>: a \<open>KeyError\<close> of \<open>comp.ports[...]\<close>;
  \<^item> \<open>NotASwitchError\<close>, \<open>NotAProbeError\<close>: the \<open>ValueError\<close>s of \<open>set_switch\<close> and \<open>get_probe\<close>;
  \<^item> \<open>ValueError\<close>: \<open>list.index\<close> on a value that is not in the list;
  \<^item> \<open>AttributeError\<close>: a method that the object's class does not have.
\<close>

datatype error =
    DuplicateIdError
  | UnknownComponentError
  | UnknownPortError
  | NotASwitchError
  | NotAProbeError
  | ValueError
  | AttributeError

type_synonym 's outcome = "error option \<times> 's"

definition then_do :: "'s outcome \<Rightarrow> ('s \<Rightarrow> 's outcome) \<Rightarrow> 's outcome" where
  "then_do r f = (case fst r of Some e \<Rightarrow> r | None \<Rightarrow> f (snd r))"

definition with_val :: "error + 'a \<Rightarrow> 's \<Rightarrow> ('a \<Rightarrow> 's outcome) \<Rightarrow> 's outcome" where
  "with_val r s f = (case r of Inl e \<Rightarrow> (Some e, s) | Inr x \<Rightarrow> f x)"

subsection \<open>Values\<close>

type_synonym TValue = int

definition clamp_t :: "int \<Rightarrow> TValue" where
  "clamp_t v = (if v > 1 then 1 else if v < - 1 then - 1 else v)"

definition trit :: "int \<Rightarrow> bool" where
  "trit v = (v = - 1 \<or> v = 0 \<or> v = 1)"

text \<open>
  \<open>resolve_wire\<close>: the set of the drivers is tested for a conflict, then the loop
  \<open>for val in (1, -1)\<close> returns the first of the two that is present.
\<close>

definition resolve_wire :: "TValue list \<Rightarrow> TValue" where
  "resolve_wire drivers =
     (let s = set drivers in
      if - 1 \<in> s \<and> 1 \<in> s then 0
      else (case find (\<lambda>val. val \<in> s) [1, - 1] of Some val \<Rightarrow> val | None \<Rightarrow> 0))"

subsection \<open>Ports and components\<close>

record Port =
  id_p :: string
  direction :: string
  value_p :: TValue

text \<open>
  The class of a component object and the attributes that its class adds to \<open>Component\<close>:
  \<open>self.value\<close> of the two switches, \<open>self._state\<close> of the latch, \<open>self.last\<close> of the probe.
\<close>

datatype variant =
    VSwitchBinary int
  | VSwitchTernary int
  | VTNOT
  | VTAND
  | VTNOR
  | VTransistor
  | VTLatch TValue
  | VProbe TValue
  | VTFullAdder

record Component =
  id_c :: string
  type_c :: string
  ports :: "(string \<times> Port) list"
  variant :: variant

definition get_in :: "string \<Rightarrow> Component \<Rightarrow> error + TValue" where
  "get_in name cmp =
     (case map_of (ports cmp) name of
        None \<Rightarrow> Inl UnknownPortError
      | Some p \<Rightarrow> Inr (value_p p))"

text \<open>
  The assignment \<open>X.ports[name].value = v\<close>, which \<open>set_out\<close> and the second loop of
  \<open>Circuit.step\<close> both make: the lookup raises when the port is missing, so no port is
  ever added.
\<close>

definition set_port_value :: "string \<Rightarrow> TValue \<Rightarrow> Component \<Rightarrow> Component outcome" where
  "set_port_value name v cmp =
     (case map_of (ports cmp) name of
        None \<Rightarrow> (Some UnknownPortError, cmp)
      | Some p \<Rightarrow> (None, cmp\<lparr>ports := AList.update name (p\<lparr>value_p := v\<rparr>) (ports cmp)\<rparr>))"

definition set_out :: "string \<Rightarrow> int \<Rightarrow> Component \<Rightarrow> Component outcome" where
  "set_out name val cmp = set_port_value name (clamp_t val) cmp"

definition new_port :: "string \<Rightarrow> string \<Rightarrow> string \<times> Port" where
  "new_port name dir = (name, \<lparr>id_p = name, direction = dir, value_p = 0\<rparr>)"

text \<open>
  The constructors. The two switches end with \<open>self.set_out('out', self.value)\<close> on the
  dictionary they have just built, which holds the key \<open>out\<close>; the lemmas
  \<open>SwitchBinary_set_out\<close> and \<open>SwitchTernary_set_out\<close> below show that this write cannot fail.
\<close>

definition SwitchBinary :: "string \<Rightarrow> int \<Rightarrow> Component" where
  "SwitchBinary ident val =
     (let v = (if val \<noteq> 0 then 1 else 0) in
      snd (set_out ''out'' v
        \<lparr>id_c = ident, type_c = ''SwitchBinary'',
         ports = [new_port ''out'' ''out''], variant = VSwitchBinary v\<rparr>))"

definition SwitchTernary :: "string \<Rightarrow> int \<Rightarrow> Component" where
  "SwitchTernary ident val =
     (let v = clamp_t val in
      snd (set_out ''out'' v
        \<lparr>id_c = ident, type_c = ''SwitchTernary'',
         ports = [new_port ''out'' ''out''], variant = VSwitchTernary v\<rparr>))"

definition TNOT :: "string \<Rightarrow> Component" where
  "TNOT ident =
     \<lparr>id_c = ident, type_c = ''TNOT'',
      ports = [new_port ''in'' ''in'', new_port ''out'' ''out''], variant = VTNOT\<rparr>"

definition TAND :: "string \<Rightarrow> Component" where
  "TAND ident =
     \<lparr>id_c = ident, type_c = ''TAND'',
      ports = [new_port ''in1'' ''in'', new_port ''in2'' ''in'', new_port ''out'' ''out''],
      variant = VTAND\<rparr>"

definition TNOR :: "string \<Rightarrow> Component" where
  "TNOR ident =
     \<lparr>id_c = ident, type_c = ''TNOR'',
      ports = [new_port ''in1'' ''in'', new_port ''in2'' ''in'', new_port ''out'' ''out''],
      variant = VTNOR\<rparr>"

definition Transistor :: "string \<Rightarrow> Component" where
  "Transistor ident =
     \<lparr>id_c = ident, type_c = ''Transistor'',
      ports = [new_port ''presence'' ''in'', new_port ''sign'' ''in'', new_port ''out'' ''out''],
      variant = VTransistor\<rparr>"

definition TLatch :: "string \<Rightarrow> Component" where
  "TLatch ident =
     \<lparr>id_c = ident, type_c = ''TLatch'',
      ports = [new_port ''in'' ''in'', new_port ''enable'' ''in'', new_port ''out'' ''out''],
      variant = VTLatch 0\<rparr>"

definition Probe :: "string \<Rightarrow> Component" where
  "Probe ident =
     \<lparr>id_c = ident, type_c = ''Probe'', ports = [new_port ''in'' ''in''], variant = VProbe 0\<rparr>"

definition TFullAdder :: "string \<Rightarrow> Component" where
  "TFullAdder ident =
     \<lparr>id_c = ident, type_c = ''TFullAdder'',
      ports = [new_port ''ai'' ''in'', new_port ''bi'' ''in'', new_port ''ci'' ''in'',
               new_port ''so'' ''out'', new_port ''co'' ''out''],
      variant = VTFullAdder\<rparr>"

subsection \<open>The methods of the switches\<close>

text \<open>\<open>list.index\<close>: the position of the first occurrence, \<open>ValueError\<close> when there is none.\<close>

fun index_of :: "int list \<Rightarrow> int \<Rightarrow> error + nat" where
  "index_of [] v = Inl ValueError"
| "index_of (x # xs) v =
     (if x = v then Inr 0
      else (case index_of xs v of Inl e \<Rightarrow> Inl e | Inr i \<Rightarrow> Inr (Suc i)))"

definition toggle :: "Component \<Rightarrow> Component outcome" where
  "toggle cmp =
     (case variant cmp of
        VSwitchBinary value \<Rightarrow>
          (let v = (if value = 1 then 0 else 1) in
           set_out ''out'' v (cmp\<lparr>variant := VSwitchBinary v\<rparr>))
      | VSwitchTernary value \<Rightarrow>
          (let order = [- 1, 0, 1] in
           with_val (index_of order value) cmp (\<lambda>i.
             let idx = (i + 1) mod 3; v = order ! idx in
             set_out ''out'' v (cmp\<lparr>variant := VSwitchTernary v\<rparr>)))
      | _ \<Rightarrow> (Some AttributeError, cmp))"

subsection \<open>The transfer functions\<close>

text \<open>
  \<open>round(total / 3.0)\<close>: Python rounds to the nearest integer and a tie to the even one.
  The quotient is computed on the integers: \<open>n div d\<close> is the floor and \<open>n mod d\<close> over \<open>d\<close>
  the fraction that remains. For the totals that three ports can hold the double
  \<open>total / 3.0\<close> is a third or two thirds away from an integer, far from a tie, so the
  double and the exact quotient round to the same integer.
\<close>

definition py_round_div :: "int \<Rightarrow> int \<Rightarrow> int" where
  "py_round_div n d =
     (let q = n div d; r = n mod d in
      if 2 * r < d then q
      else if 2 * r > d then q + 1
      else if even q then q else q + 1)"

definition step_c :: "Component \<Rightarrow> Component outcome" where
  "step_c cmp =
     (case variant cmp of
        VSwitchBinary value \<Rightarrow> (None, cmp)
      | VSwitchTernary value \<Rightarrow> (None, cmp)
      | VTNOT \<Rightarrow>
          with_val (get_in ''in'' cmp) cmp (\<lambda>x.
            set_out ''out'' (- x) cmp)
      | VTAND \<Rightarrow>
          with_val (get_in ''in1'' cmp) cmp (\<lambda>a.
          with_val (get_in ''in2'' cmp) cmp (\<lambda>b.
            set_out ''out'' (min a b) cmp))
      | VTNOR \<Rightarrow>
          with_val (get_in ''in1'' cmp) cmp (\<lambda>a.
          with_val (get_in ''in2'' cmp) cmp (\<lambda>b.
            set_out ''out'' (- max a b) cmp))
      | VTransistor \<Rightarrow>
          with_val (get_in ''presence'' cmp) cmp (\<lambda>p.
          with_val (get_in ''sign'' cmp) cmp (\<lambda>s.
            if p \<noteq> 0 \<and> s \<noteq> 0 then set_out ''out'' s cmp
            else set_out ''out'' 0 cmp))
      | VTLatch state \<Rightarrow>
          with_val (get_in ''enable'' cmp) cmp (\<lambda>en.
          with_val (if en = 1 then get_in ''in'' cmp else Inr state) cmp (\<lambda>state'.
            set_out ''out'' state' (cmp\<lparr>variant := VTLatch state'\<rparr>)))
      | VProbe seen \<Rightarrow>
          with_val (get_in ''in'' cmp) cmp (\<lambda>x.
            (None, cmp\<lparr>variant := VProbe x\<rparr>))
      | VTFullAdder \<Rightarrow>
          with_val (get_in ''ai'' cmp) cmp (\<lambda>a.
          with_val (get_in ''bi'' cmp) cmp (\<lambda>b.
          with_val (get_in ''ci'' cmp) cmp (\<lambda>c.
            let total = a + b + c;
                co0 = py_round_div total 3;
                co = (if co0 > 1 then 1 else if co0 < - 1 then - 1 else co0);
                so = total - 3 * co
            in then_do (set_out ''co'' (clamp_t co) cmp) (set_out ''so'' (clamp_t so))))))"

subsection \<open>Wires and the circuit\<close>

record Wire =
  src_comp :: string
  src_port :: string
  dst_comp :: string
  dst_port :: string

record Circuit =
  components :: "(string \<times> Component) list"
  wires :: "Wire list"

definition Circuit_init :: Circuit where
  "Circuit_init = \<lparr>components = [], wires = []\<rparr>"

definition add :: "Component \<Rightarrow> Circuit \<Rightarrow> Circuit outcome" where
  "add cmp c =
     (if map_of (components c) (id_c cmp) \<noteq> None then (Some DuplicateIdError, c)
      else (None, c\<lparr>components := AList.update (id_c cmp) cmp (components c)\<rparr>))"

definition connect :: "string \<Rightarrow> string \<Rightarrow> string \<Rightarrow> string \<Rightarrow> Circuit \<Rightarrow> Circuit outcome" where
  "connect sc sp dc dp c =
     (None, c\<lparr>wires := wires c @
        [\<lparr>src_comp = sc, src_port = sp, dst_comp = dc, dst_port = dp\<rparr>]\<rparr>)"

text \<open>
  The three loops of \<open>Circuit.step\<close>. The first only reads: it fills the dictionary
  \<open>inputs\<close>, whose keys are the destinations in the order of their first wire
  (\<open>inputs.setdefault(key, []).append(val)\<close>). The second writes the resolved value of
  every key into its port. The third calls \<open>step\<close> on every component in the order of the
  dictionary \<open>components\<close>.
\<close>

type_synonym inputs = "((string \<times> string) \<times> TValue list) list"

definition append_driver :: "string \<times> string \<Rightarrow> TValue \<Rightarrow> inputs \<Rightarrow> inputs" where
  "append_driver key val inp =
     AList.update key ((case map_of inp key of None \<Rightarrow> [] | Some ds \<Rightarrow> ds) @ [val]) inp"

fun collect_drivers :: "(string \<times> Component) list \<Rightarrow> Wire list \<Rightarrow> inputs \<Rightarrow> error + inputs" where
  "collect_drivers comps [] inp = Inr inp"
| "collect_drivers comps (w # ws) inp =
     (case map_of comps (src_comp w) of
        None \<Rightarrow> Inl UnknownComponentError
      | Some src \<Rightarrow>
          (case map_of (ports src) (src_port w) of
             None \<Rightarrow> Inl UnknownPortError
           | Some p \<Rightarrow>
               collect_drivers comps ws
                 (append_driver (dst_comp w, dst_port w) (value_p p) inp)))"

fun write_inputs :: "inputs \<Rightarrow> (string \<times> Component) list \<Rightarrow> (string \<times> Component) list outcome" where
  "write_inputs [] comps = (None, comps)"
| "write_inputs (((comp_id, port_name), drivers) # rest) comps =
     (case map_of comps comp_id of
        None \<Rightarrow> (Some UnknownComponentError, comps)
      | Some cmp \<Rightarrow>
          (case set_port_value port_name (resolve_wire drivers) cmp of
             (Some e, cmp') \<Rightarrow> (Some e, comps)
           | (None, cmp') \<Rightarrow> write_inputs rest (AList.update comp_id cmp' comps)))"

fun step_components :: "(string \<times> Component) list \<Rightarrow> (string \<times> Component) list outcome" where
  "step_components [] = (None, [])"
| "step_components ((k, cmp) # rest) =
     (case step_c cmp of
        (Some e, cmp') \<Rightarrow> (Some e, (k, cmp') # rest)
      | (None, cmp') \<Rightarrow>
          (case step_components rest of (e, rest') \<Rightarrow> (e, (k, cmp') # rest')))"

definition step :: "Circuit \<Rightarrow> Circuit outcome" where
  "step c =
     (case collect_drivers (components c) (wires c) [] of
        Inl e \<Rightarrow> (Some e, c)
      | Inr inp \<Rightarrow>
          (case write_inputs inp (components c) of
             (Some e, comps) \<Rightarrow> (Some e, c\<lparr>components := comps\<rparr>)
           | (None, comps) \<Rightarrow>
               (case step_components comps of
                  (e, comps') \<Rightarrow> (e, c\<lparr>components := comps'\<rparr>))))"

definition set_switch :: "string \<Rightarrow> int \<Rightarrow> Circuit \<Rightarrow> Circuit outcome" where
  "set_switch comp_id val c =
     (case map_of (components c) comp_id of
        None \<Rightarrow> (Some UnknownComponentError, c)
      | Some cmp \<Rightarrow>
          (case variant cmp of
             VSwitchBinary _ \<Rightarrow>
               (let v = (if val \<noteq> 0 then 1 else 0);
                    r = set_out ''out'' v (cmp\<lparr>variant := VSwitchBinary v\<rparr>)
                in (fst r, c\<lparr>components := AList.update comp_id (snd r) (components c)\<rparr>))
           | VSwitchTernary _ \<Rightarrow>
               (let v = clamp_t val;
                    r = set_out ''out'' v (cmp\<lparr>variant := VSwitchTernary v\<rparr>)
                in (fst r, c\<lparr>components := AList.update comp_id (snd r) (components c)\<rparr>))
           | _ \<Rightarrow> (Some NotASwitchError, c)))"

definition get_probe :: "string \<Rightarrow> Circuit \<Rightarrow> error + TValue" where
  "get_probe comp_id c =
     (case map_of (components c) comp_id of
        None \<Rightarrow> Inl UnknownComponentError
      | Some cmp \<Rightarrow>
          (case variant cmp of
             VProbe seen \<Rightarrow> Inr seen
           | _ \<Rightarrow> Inl NotAProbeError))"

text \<open>
  The callers toggle a switch through the object that the circuit holds
  (\<open>sw1.toggle()\<close> in the smoke test, \<open>comp.toggle()\<close> on \<open>circuit.components\<close> in the
  editor). The object is shared, so the call changes the circuit's component:
  \<open>toggle_switch\<close> is \<open>c.components[comp_id].toggle()\<close>.
\<close>

definition toggle_switch :: "string \<Rightarrow> Circuit \<Rightarrow> Circuit outcome" where
  "toggle_switch comp_id c =
     (case map_of (components c) comp_id of
        None \<Rightarrow> (Some UnknownComponentError, c)
      | Some cmp \<Rightarrow>
          (let r = toggle cmp
           in (fst r, c\<lparr>components := AList.update comp_id (snd r) (components c)\<rparr>)))"

subsection \<open>A sequence of calls\<close>

text \<open>A script of calls on one circuit: an exception ends it, as it ends the caller.\<close>

definition run_calls :: "(Circuit \<Rightarrow> Circuit outcome) list \<Rightarrow> Circuit \<Rightarrow> Circuit outcome" where
  "run_calls calls c = foldl then_do (None, c) calls"

section \<open>What the properties speak about\<close>

subsection \<open>Reading a port of a circuit\<close>

definition port_of :: "(string \<times> Component) list \<Rightarrow> string \<Rightarrow> string \<Rightarrow> Port option" where
  "port_of comps comp_id port_name =
     (case map_of comps comp_id of
        None \<Rightarrow> None
      | Some cmp \<Rightarrow> map_of (ports cmp) port_name)"

definition port_val :: "(string \<times> Component) list \<Rightarrow> string \<Rightarrow> string \<Rightarrow> TValue option" where
  "port_val comps comp_id port_name = map_option value_p (port_of comps comp_id port_name)"

definition port_dir :: "(string \<times> Component) list \<Rightarrow> string \<Rightarrow> string \<Rightarrow> string option" where
  "port_dir comps comp_id port_name = map_option direction (port_of comps comp_id port_name)"

text \<open>The wires that end in a port, and the values at their sources, in wire order.\<close>

definition drives :: "string \<Rightarrow> string \<Rightarrow> Wire \<Rightarrow> bool" where
  "drives comp_id port_name w = (dst_comp w = comp_id \<and> dst_port w = port_name)"

definition driven :: "Circuit \<Rightarrow> string \<Rightarrow> string \<Rightarrow> bool" where
  "driven c comp_id port_name = list_ex (drives comp_id port_name) (wires c)"

definition source_values :: "(string \<times> Component) list \<Rightarrow> Wire list \<Rightarrow> TValue list" where
  "source_values comps ws =
     concat (map (\<lambda>w. case port_val comps (src_comp w) (src_port w) of
                          None \<Rightarrow> [] | Some v \<Rightarrow> [v]) ws)"

definition drivers_of :: "Circuit \<Rightarrow> string \<Rightarrow> string \<Rightarrow> TValue list" where
  "drivers_of c comp_id port_name =
     source_values (components c) (filter (drives comp_id port_name) (wires c))"

text \<open>A wire is valid when both of its ends name a port of a component of the circuit.\<close>

definition valid_wire :: "(string \<times> Component) list \<Rightarrow> Wire \<Rightarrow> bool" where
  "valid_wire comps w =
     (port_of comps (src_comp w) (src_port w) \<noteq> None
      \<and> port_of comps (dst_comp w) (dst_port w) \<noteq> None)"

subsection \<open>The structure of a circuit\<close>

text \<open>
  Everything about a component but the values it holds: its id, its type name, its class
  and, port by port in order, the key, the port's id and its direction.
\<close>

definition port_shape :: "(string \<times> Port) list \<Rightarrow> (string \<times> string \<times> string) list" where
  "port_shape ps = map (\<lambda>np. (fst np, id_p (snd np), direction (snd np))) ps"

fun class_of :: "variant \<Rightarrow> string" where
  "class_of (VSwitchBinary v) = ''SwitchBinary''"
| "class_of (VSwitchTernary v) = ''SwitchTernary''"
| "class_of VTNOT = ''TNOT''"
| "class_of VTAND = ''TAND''"
| "class_of VTNOR = ''TNOR''"
| "class_of VTransistor = ''Transistor''"
| "class_of (VTLatch s) = ''TLatch''"
| "class_of (VProbe l) = ''Probe''"
| "class_of VTFullAdder = ''TFullAdder''"

definition shape_c :: "Component \<Rightarrow> string \<times> string \<times> string \<times> (string \<times> string \<times> string) list" where
  "shape_c cmp = (id_c cmp, type_c cmp, class_of (variant cmp), port_shape (ports cmp))"

definition shapes ::
  "(string \<times> Component) list \<Rightarrow>
   (string \<times> string \<times> string \<times> string \<times> (string \<times> string \<times> string) list) list" where
  "shapes comps = map (\<lambda>kc. (fst kc, shape_c (snd kc))) comps"

definition structure_of ::
  "Circuit \<Rightarrow>
   (string \<times> string \<times> string \<times> string \<times> (string \<times> string \<times> string) list) list \<times> Wire list" where
  "structure_of c = (shapes (components c), wires c)"

text \<open>
  A component is well formed when its ports are the ports that the constructor of its
  class creates; a circuit, when its keys are distinct (it is a dictionary) and its
  components are well formed.
\<close>

fun fresh_of :: "variant \<Rightarrow> Component" where
  "fresh_of (VSwitchBinary v) = SwitchBinary [] 0"
| "fresh_of (VSwitchTernary v) = SwitchTernary [] 0"
| "fresh_of VTNOT = TNOT []"
| "fresh_of VTAND = TAND []"
| "fresh_of VTNOR = TNOR []"
| "fresh_of VTransistor = Transistor []"
| "fresh_of (VTLatch s) = TLatch []"
| "fresh_of (VProbe l) = Probe []"
| "fresh_of VTFullAdder = TFullAdder []"

definition wf_component :: "Component \<Rightarrow> bool" where
  "wf_component cmp = (port_shape (ports cmp) = port_shape (ports (fresh_of (variant cmp))))"

definition wf_comps :: "(string \<times> Component) list \<Rightarrow> bool" where
  "wf_comps comps =
     (distinct (map fst comps) \<and> list_all (\<lambda>kc. wf_component (snd kc)) comps)"

definition wf_circuit :: "Circuit \<Rightarrow> bool" where
  "wf_circuit c = wf_comps (components c)"

subsection \<open>The range of the stored values\<close>

fun trit_variant :: "variant \<Rightarrow> bool" where
  "trit_variant (VSwitchBinary v) = trit v"
| "trit_variant (VSwitchTernary v) = trit v"
| "trit_variant (VTLatch s) = trit s"
| "trit_variant (VProbe l) = trit l"
| "trit_variant VTNOT = True"
| "trit_variant VTAND = True"
| "trit_variant VTNOR = True"
| "trit_variant VTransistor = True"
| "trit_variant VTFullAdder = True"

definition trit_ports :: "(string \<times> Port) list \<Rightarrow> bool" where
  "trit_ports ps = list_all (\<lambda>np. trit (value_p (snd np))) ps"

definition trit_component :: "Component \<Rightarrow> bool" where
  "trit_component cmp = (trit_ports (ports cmp) \<and> trit_variant (variant cmp))"

definition trit_comps :: "(string \<times> Component) list \<Rightarrow> bool" where
  "trit_comps comps = list_all (\<lambda>kc. trit_component (snd kc)) comps"

definition trit_circuit :: "Circuit \<Rightarrow> bool" where
  "trit_circuit c = trit_comps (components c)"

subsection \<open>The third loop in another order\<close>

text \<open>
  \<open>step_permuted order\<close> is \<open>Circuit.step\<close> with its third loop replaced by
  \<open>for k in order: self.components[k].step()\<close>.
\<close>

fun step_in_order :: "string list \<Rightarrow> (string \<times> Component) list \<Rightarrow> (string \<times> Component) list outcome" where
  "step_in_order [] comps = (None, comps)"
| "step_in_order (k # ks) comps =
     (case map_of comps k of
        None \<Rightarrow> (Some UnknownComponentError, comps)
      | Some cmp \<Rightarrow>
          (case step_c cmp of
             (Some e, cmp') \<Rightarrow> (Some e, AList.update k cmp' comps)
           | (None, cmp') \<Rightarrow> step_in_order ks (AList.update k cmp' comps)))"

definition step_permuted :: "string list \<Rightarrow> Circuit \<Rightarrow> Circuit outcome" where
  "step_permuted order c =
     (case collect_drivers (components c) (wires c) [] of
        Inl e \<Rightarrow> (Some e, c)
      | Inr inp \<Rightarrow>
          (case write_inputs inp (components c) of
             (Some e, comps) \<Rightarrow> (Some e, c\<lparr>components := comps\<rparr>)
           | (None, comps) \<Rightarrow>
               (case step_in_order order comps of
                  (e, comps') \<Rightarrow> (e, c\<lparr>components := comps'\<rparr>))))"

subsection \<open>The carry as the specification words it\<close>

text \<open>
  The specification's carry: \<open>n / d\<close> rounded to the nearest integer, a half away from
  zero.
\<close>

definition round_half_away :: "int \<Rightarrow> int \<Rightarrow> int" where
  "round_half_away n d =
     (if n < 0 then - ((2 * (- n) + d) div (2 * d)) else (2 * n + d) div (2 * d))"

subsection \<open>Concrete components and circuits\<close>

text \<open>A component with values written into some of its ports, as the second loop writes them.\<close>

definition with_inputs :: "(string \<times> TValue) list \<Rightarrow> Component \<Rightarrow> Component" where
  "with_inputs vs cmp = foldl (\<lambda>c nv. snd (set_port_value (fst nv) (snd nv) c)) cmp vs"

text \<open>The circuit that \<open>run\<close> of \<open>tests/smoke_test.py\<close> builds, before its first step.\<close>

definition smoke_circuit :: "Circuit outcome" where
  "smoke_circuit = run_calls
     [add (SwitchTernary ''sw1'' 1), add (SwitchTernary ''sw2'' (- 1)), add (TAND ''and1''),
      add (TNOR ''nor1''), add (Transistor ''t1''), add (TLatch ''l1''), add (Probe ''p1''),
      connect ''sw1'' ''out'' ''and1'' ''in1'',
      connect ''sw2'' ''out'' ''and1'' ''in2'',
      connect ''and1'' ''out'' ''t1'' ''presence'',
      connect ''sw1'' ''out'' ''t1'' ''sign'',
      connect ''t1'' ''out'' ''nor1'' ''in1'',
      connect ''sw2'' ''out'' ''nor1'' ''in2'',
      connect ''nor1'' ''out'' ''l1'' ''in'',
      connect ''sw1'' ''out'' ''l1'' ''enable'',
      connect ''l1'' ''out'' ''p1'' ''in''] Circuit_init"

text \<open>A switch, two inverters and a probe in a row.\<close>

definition chain_circuit :: "Circuit outcome" where
  "chain_circuit = run_calls
     [add (SwitchTernary ''sw'' 1), add (TNOT ''n1''), add (TNOT ''n2''), add (Probe ''p''),
      connect ''sw'' ''out'' ''n1'' ''in'',
      connect ''n1'' ''out'' ''n2'' ''in'',
      connect ''n2'' ''out'' ''p'' ''in''] Circuit_init"

text \<open>Values are written into ports of a component, then its transfer function runs.\<close>

definition drive_and_step :: "(string \<times> TValue) list \<Rightarrow> Component \<Rightarrow> Component" where
  "drive_and_step vs cmp = snd (step_c (with_inputs vs cmp))"

definition adder_at :: "TValue \<Rightarrow> TValue \<Rightarrow> TValue \<Rightarrow> Component" where
  "adder_at a b c =
     drive_and_step [(''ai'', a), (''bi'', b), (''ci'', c)] (TFullAdder ''fa'')"

section \<open>Supporting lemmas\<close>

subsection \<open>Outcomes, values and ports\<close>

lemma then_do_simps [simp]:
  "then_do (None, s) f = f s"
  "then_do (Some e, s) f = (Some e, s)"
  by (simp_all add: then_do_def)

lemma with_val_simps [simp]:
  "with_val (Inl e) s f = (Some e, s)"
  "with_val (Inr x) s f = f x"
  by (simp_all add: with_val_def)

lemma trit_clamp_t [simp]: "trit (clamp_t v)"
  by (auto simp: trit_def clamp_t_def)

lemma clamp_t_trit: "trit v \<Longrightarrow> clamp_t v = v"
  by (auto simp: trit_def clamp_t_def)

lemma trit_resolve_wire [simp]: "trit (resolve_wire ds)"
  by (auto simp: trit_def resolve_wire_def Let_def)

lemma map_fst_port_shape [simp]: "map fst (port_shape ps) = map fst ps"
  by (simp add: port_shape_def)

lemma has_port_iff: "(map_of ps n \<noteq> None) = (n \<in> fst ` set (port_shape ps))"
proof -
  have "(map_of ps n \<noteq> None) = (n \<in> set (map fst ps))"
    by (simp add: map_of_eq_None_iff)
  also have "\<dots> = (n \<in> set (map fst (port_shape ps)))"
    by (simp only: map_fst_port_shape)
  finally show ?thesis by (simp only: set_map)
qed

lemma port_shape_update:
  "map_of ps n = Some p \<Longrightarrow> id_p p' = id_p p \<Longrightarrow> direction p' = direction p \<Longrightarrow>
   port_shape (AList.update n p' ps) = port_shape ps"
  by (induction ps) (auto simp: port_shape_def split: if_splits)

lemma set_port_value_fields [simp]:
  "id_c (snd (set_port_value n v cmp)) = id_c cmp"
  "type_c (snd (set_port_value n v cmp)) = type_c cmp"
  "variant (snd (set_port_value n v cmp)) = variant cmp"
  by (simp_all add: set_port_value_def split: option.splits)

lemma set_port_value_port_shape [simp]:
  "port_shape (ports (snd (set_port_value n v cmp))) = port_shape (ports cmp)"
  by (simp add: set_port_value_def port_shape_update split: option.splits)

lemma set_port_value_ok_iff:
  "(fst (set_port_value n v cmp) = None) = (map_of (ports cmp) n \<noteq> None)"
  by (simp add: set_port_value_def split: option.splits)

lemma set_port_value_fst:
  "fst (set_port_value n v cmp) = (if map_of (ports cmp) n = None then Some UnknownPortError else None)"
  by (simp add: set_port_value_def split: option.splits)

lemma set_port_value_fail:
  "fst (set_port_value n v cmp) = Some e \<Longrightarrow> snd (set_port_value n v cmp) = cmp"
  by (simp add: set_port_value_def split: option.splits)

lemma map_of_set_port_value:
  "map_of (ports (snd (set_port_value m v cmp))) n =
     (if n = m then map_option (\<lambda>p. p\<lparr>value_p := v\<rparr>) (map_of (ports cmp) m)
      else map_of (ports cmp) n)"
  by (simp add: set_port_value_def update_conv' split: option.splits)

lemma get_in_set_port_value:
  "get_in n (snd (set_port_value m v cmp)) =
     (if n = m \<and> map_of (ports cmp) m \<noteq> None then Inr v else get_in n cmp)"
  by (auto simp: get_in_def map_of_set_port_value split: option.splits)

lemma trit_ports_update:
  "trit_ports ps \<Longrightarrow> trit (value_p p) \<Longrightarrow> trit_ports (AList.update n p ps)"
  by (induction ps) (auto simp: trit_ports_def)

lemma set_port_value_trit_ports:
  "trit_ports (ports cmp) \<Longrightarrow> trit v \<Longrightarrow> trit_ports (ports (snd (set_port_value n v cmp)))"
  by (simp add: set_port_value_def trit_ports_update split: option.splits)

lemma trit_ports_map_of:
  "trit_ports ps \<Longrightarrow> map_of ps n = Some p \<Longrightarrow> trit (value_p p)"
  by (fastforce simp: trit_ports_def list_all_iff dest: map_of_SomeD)

lemma trit_get_in: "trit_ports (ports cmp) \<Longrightarrow> get_in n cmp = Inr x \<Longrightarrow> trit x"
  by (auto simp: get_in_def split: option.splits dest: trit_ports_map_of)


lemma shape_c_set_port_value [simp]: "shape_c (snd (set_port_value n v cmp)) = shape_c cmp"
  by (simp add: shape_c_def)

lemma set_out_fields [simp]:
  "id_c (snd (set_out n v cmp)) = id_c cmp"
  "type_c (snd (set_out n v cmp)) = type_c cmp"
  "variant (snd (set_out n v cmp)) = variant cmp"
  "port_shape (ports (snd (set_out n v cmp))) = port_shape (ports cmp)"
  "shape_c (snd (set_out n v cmp)) = shape_c cmp"
  by (simp_all add: set_out_def)

lemma shape_c_variant_update:
  "class_of v = class_of (variant cmp) \<Longrightarrow> shape_c (cmp\<lparr>variant := v\<rparr>) = shape_c cmp"
  by (simp add: shape_c_def)

lemma fst_with_val:
  "fst (with_val r s f) = (case r of Inl e \<Rightarrow> Some e | Inr x \<Rightarrow> fst (f x))"
  by (simp add: with_val_def split: sum.splits)

lemma snd_with_val:
  "snd (with_val r s f) = (case r of Inl e \<Rightarrow> s | Inr x \<Rightarrow> snd (f x))"
  by (simp add: with_val_def split: sum.splits)

lemma fst_then_do:
  "fst (then_do r f) = (case fst r of Some e \<Rightarrow> Some e | None \<Rightarrow> fst (f (snd r)))"
  by (simp add: then_do_def split: option.splits)

lemma snd_then_do:
  "snd (then_do r f) = (case fst r of Some e \<Rightarrow> snd r | None \<Rightarrow> snd (f (snd r)))"
  by (simp add: then_do_def split: option.splits)

lemma step_c_shape [simp]: "shape_c (snd (step_c cmp)) = shape_c cmp"
  by (cases "variant cmp")
     (simp_all add: step_c_def snd_with_val snd_then_do Let_def shape_c_variant_update
        split: sum.splits option.splits)

lemma toggle_shape [simp]: "shape_c (snd (toggle cmp)) = shape_c cmp"
  by (cases "variant cmp")
     (simp_all add: toggle_def snd_with_val Let_def shape_c_variant_update
        split: sum.splits option.splits)

lemma fresh_of_class: "class_of v = class_of v' \<Longrightarrow> fresh_of v = fresh_of v'"
  by (cases v; cases v'; simp)

lemma wf_component_shape:
  "shape_c cmp' = shape_c cmp \<Longrightarrow> wf_component cmp' = wf_component cmp"
  by (auto simp: wf_component_def shape_c_def dest: fresh_of_class)

lemma wf_has_port:
  "wf_component cmp \<Longrightarrow>
   (map_of (ports cmp) n \<noteq> None) = (n \<in> fst ` set (port_shape (ports (fresh_of (variant cmp)))))"
  unfolding wf_component_def using has_port_iff [of "ports cmp" n] by metis

lemma get_in_has_port:
  "map_of (ports cmp) n \<noteq> None \<Longrightarrow> \<exists>x. get_in n cmp = Inr x"
  by (auto simp: get_in_def)

lemma fresh_port_shapes:
  "port_shape (ports (SwitchBinary i v)) = [(''out'', ''out'', ''out'')]"
  "port_shape (ports (SwitchTernary i v)) = [(''out'', ''out'', ''out'')]"
  "port_shape (ports (TNOT i)) = [(''in'', ''in'', ''in''), (''out'', ''out'', ''out'')]"
  "port_shape (ports (TAND i)) =
     [(''in1'', ''in1'', ''in''), (''in2'', ''in2'', ''in''), (''out'', ''out'', ''out'')]"
  "port_shape (ports (TNOR i)) =
     [(''in1'', ''in1'', ''in''), (''in2'', ''in2'', ''in''), (''out'', ''out'', ''out'')]"
  "port_shape (ports (Transistor i)) =
     [(''presence'', ''presence'', ''in''), (''sign'', ''sign'', ''in''), (''out'', ''out'', ''out'')]"
  "port_shape (ports (TLatch i)) =
     [(''in'', ''in'', ''in''), (''enable'', ''enable'', ''in''), (''out'', ''out'', ''out'')]"
  "port_shape (ports (Probe i)) = [(''in'', ''in'', ''in'')]"
  "port_shape (ports (TFullAdder i)) =
     [(''ai'', ''ai'', ''in''), (''bi'', ''bi'', ''in''), (''ci'', ''ci'', ''in''),
      (''so'', ''so'', ''out''), (''co'', ''co'', ''out'')]"
  by (simp_all add: SwitchBinary_def SwitchTernary_def TNOT_def TAND_def TNOR_def
        Transistor_def TLatch_def Probe_def TFullAdder_def new_port_def port_shape_def
        set_out_def set_port_value_def Let_def)

lemma step_c_ok: "wf_component cmp \<Longrightarrow> fst (step_c cmp) = None"
proof -
  assume wf: "wf_component cmp"
  have hp: "\<And>n. (map_of (ports cmp) n = None) =
      (n \<notin> fst ` set (port_shape (ports (fresh_of (variant cmp)))))"
    using wf_has_port [OF wf] by blast
  show ?thesis
    by (cases "variant cmp")
       (auto simp: step_c_def fst_with_val fst_then_do get_in_def hp fresh_port_shapes
          set_out_def set_port_value_fst map_of_set_port_value Let_def
          split: sum.splits option.splits)
qed

lemma clamp_t_idem [simp]: "clamp_t (clamp_t v) = clamp_t v"
  by (simp add: clamp_t_def)

lemma adder_arith:
  fixes a b c :: int
  defines "co0 \<equiv> py_round_div (a + b + c) 3"
  defines "co \<equiv> if co0 > 1 then 1 else if co0 < - 1 then - 1 else co0"
  defines "so \<equiv> a + b + c - 3 * co"
  assumes "trit a" and "trit b" and "trit c"
  shows "clamp_t co = clamp_t (round_half_away (a + b + c) 3)
       \<and> clamp_t so = clamp_t (a + b + c - 3 * clamp_t co)
       \<and> clamp_t so + 3 * clamp_t co = a + b + c"
  using assms(4-6) unfolding trit_def co0_def co_def so_def
  by (elim disjE; simp add: py_round_div_def round_half_away_def clamp_t_def Let_def)

lemma step_c_adder:
  assumes wf: "wf_component cmp" and v: "variant cmp = VTFullAdder"
    and a: "get_in ''ai'' cmp = Inr a" and b: "get_in ''bi'' cmp = Inr b"
    and c: "get_in ''ci'' cmp = Inr c"
  shows "get_in ''co'' (snd (step_c cmp)) =
           Inr (clamp_t (if py_round_div (a + b + c) 3 > 1 then 1
                         else if py_round_div (a + b + c) 3 < - 1 then - 1
                         else py_round_div (a + b + c) 3))"
    and "get_in ''so'' (snd (step_c cmp)) =
           Inr (clamp_t (a + b + c - 3 *
                        (if py_round_div (a + b + c) 3 > 1 then 1
                         else if py_round_div (a + b + c) 3 < - 1 then - 1
                         else py_round_div (a + b + c) 3)))"
proof -
  have hp: "\<And>n. (map_of (ports cmp) n = None) =
      (n \<notin> fst ` set (port_shape (ports (fresh_of (variant cmp)))))"
    using wf_has_port [OF wf] by blast
  show "get_in ''co'' (snd (step_c cmp)) =
           Inr (clamp_t (if py_round_div (a + b + c) 3 > 1 then 1
                         else if py_round_div (a + b + c) 3 < - 1 then - 1
                         else py_round_div (a + b + c) 3))"
    by (simp add: step_c_def v a b c Let_def snd_then_do set_out_def set_port_value_fst hp
          fresh_port_shapes get_in_set_port_value map_of_set_port_value)
  show "get_in ''so'' (snd (step_c cmp)) =
           Inr (clamp_t (a + b + c - 3 *
                        (if py_round_div (a + b + c) 3 > 1 then 1
                         else if py_round_div (a + b + c) 3 < - 1 then - 1
                         else py_round_div (a + b + c) 3)))"
    by (simp add: step_c_def v a b c Let_def snd_then_do set_out_def set_port_value_fst hp
          fresh_port_shapes get_in_set_port_value map_of_set_port_value)
qed


lemma adder_examples:
  "get_in ''so'' (adder_at 1 1 1) = Inr 0 \<and> get_in ''co'' (adder_at 1 1 1) = Inr 1
    \<and> get_in ''so'' (adder_at 1 1 0) = Inr (- 1) \<and> get_in ''co'' (adder_at 1 1 0) = Inr 1
    \<and> get_in ''so'' (adder_at (- 1) (- 1) (- 1)) = Inr 0
    \<and> get_in ''co'' (adder_at (- 1) (- 1) (- 1)) = Inr (- 1)"
  by code_simp

lemma latch_example:
  "(let l1 = drive_and_step [(''enable'', 1), (''in'', 1)] (TLatch ''l1'');
        l2 = drive_and_step [(''enable'', 0), (''in'', - 1)] l1;
        l3 = drive_and_step [(''enable'', - 1), (''in'', - 1)] l2
    in variant l1 = VTLatch 1 \<and> get_in ''out'' l1 = Inr 1
     \<and> variant l2 = VTLatch 1 \<and> get_in ''out'' l2 = Inr 1
     \<and> variant l3 = VTLatch 1 \<and> get_in ''out'' l3 = Inr 1)"
  by code_simp

subsection \<open>The structure is kept\<close>

lemma shapes_update:
  "map_of comps k = Some cmp \<Longrightarrow> shape_c cmp' = shape_c cmp \<Longrightarrow>
   shapes (AList.update k cmp' comps) = shapes comps"
  by (induction comps) (auto simp: shapes_def split: if_splits)

lemma map_fst_shapes [simp]: "map fst (shapes comps) = map fst comps"
  by (simp add: shapes_def)

lemma write_inputs_shapes [simp]: "shapes (snd (write_inputs inp comps)) = shapes comps"
proof (induction inp comps rule: write_inputs.induct)
  case (1 comps)
  show ?case by simp
next
  case (2 comp_id port_name drivers rest comps)
  show ?case
  proof (cases "map_of comps comp_id")
    case None
    then show ?thesis by simp
  next
    case (Some cmp)
    obtain e cmp' where r: "set_port_value port_name (resolve_wire drivers) cmp = (e, cmp')"
      by (cases "set_port_value port_name (resolve_wire drivers) cmp")
    have sh: "shape_c cmp' = shape_c cmp"
      using shape_c_set_port_value [of port_name "resolve_wire drivers" cmp] r by simp
    show ?thesis
    proof (cases e)
      case None
      with 2 Some r sh show ?thesis
        by (simp add: shapes_update)
    next
      case (Some err)
      with \<open>map_of comps comp_id = Some cmp\<close> r show ?thesis by simp
    qed
  qed
qed

lemma step_components_shapes [simp]: "shapes (snd (step_components comps)) = shapes comps"
proof (induction comps)
  case Nil
  show ?case by simp
next
  case (Cons kc comps)
  obtain k cmp where kc: "kc = (k, cmp)" by (cases kc)
  obtain e cmp' where r: "step_c cmp = (e, cmp')" by (cases "step_c cmp")
  have sh: "shape_c cmp' = shape_c cmp"
    using step_c_shape [of cmp] r by simp
  obtain e2 rest' where r2: "step_components comps = (e2, rest')"
    by (cases "step_components comps")
  with Cons have ih: "shapes rest' = shapes comps" by simp
  show ?case
    using kc r r2 sh ih by (cases e) (simp_all add: shapes_def)
qed

lemma step_in_order_shapes [simp]: "shapes (snd (step_in_order ks comps)) = shapes comps"
proof (induction ks arbitrary: comps)
  case Nil
  show ?case by simp
next
  case (Cons k ks)
  show ?case
  proof (cases "map_of comps k")
    case None
    then show ?thesis by simp
  next
    case (Some cmp)
    obtain e cmp' where r: "step_c cmp = (e, cmp')" by (cases "step_c cmp")
    have sh: "shape_c cmp' = shape_c cmp"
      using step_c_shape [of cmp] r by simp
    show ?thesis
      using Some r sh Cons.IH [of "AList.update k cmp' comps"]
      by (cases e) (simp_all add: shapes_update)
  qed
qed

lemma step_wires [simp]: "wires (snd (step c)) = wires c"
proof (cases "collect_drivers (components c) (wires c) []")
  case (Inl e)
  then show ?thesis by (simp add: step_def)
next
  case (Inr inp)
  obtain e comps where w: "write_inputs inp (components c) = (e, comps)"
    by (cases "write_inputs inp (components c)")
  obtain e2 comps' where s: "step_components comps = (e2, comps')"
    by (cases "step_components comps")
  show ?thesis
    using Inr w s by (cases e) (simp_all add: step_def)
qed

lemma step_shapes [simp]: "shapes (components (snd (step c))) = shapes (components c)"
proof (cases "collect_drivers (components c) (wires c) []")
  case (Inl e)
  then show ?thesis by (simp add: step_def)
next
  case (Inr inp)
  obtain e comps where w: "write_inputs inp (components c) = (e, comps)"
    by (cases "write_inputs inp (components c)")
  have s1: "shapes comps = shapes (components c)"
    using write_inputs_shapes [of inp "components c"] w by simp
  obtain e2 comps' where s: "step_components comps = (e2, comps')"
    by (cases "step_components comps")
  have s2: "shapes comps' = shapes comps"
    using step_components_shapes [of comps] s by simp
  show ?thesis
    using Inr w s s1 s2 by (cases e) (simp_all add: step_def)
qed

lemma set_switch_wires [simp]: "wires (snd (set_switch k v c)) = wires c"
proof (cases "map_of (components c) k")
  case None
  then show ?thesis by (simp add: set_switch_def)
next
  case (Some cmp)
  then show ?thesis
    by (cases "variant cmp") (simp_all add: set_switch_def Let_def)
qed

lemma set_switch_shapes [simp]:
  "shapes (components (snd (set_switch k v c))) = shapes (components c)"
proof (cases "map_of (components c) k")
  case None
  then show ?thesis by (simp add: set_switch_def)
next
  case (Some cmp)
  then show ?thesis
    by (cases "variant cmp")
       (simp_all add: set_switch_def Let_def shapes_update shape_c_variant_update)
qed

lemma toggle_switch_wires [simp]: "wires (snd (toggle_switch k c)) = wires c"
  by (simp add: toggle_switch_def Let_def split: option.splits)

lemma toggle_switch_shapes [simp]:
  "shapes (components (snd (toggle_switch k c))) = shapes (components c)"
  by (simp add: toggle_switch_def Let_def shapes_update split: option.splits)

subsection \<open>Well-formedness is kept\<close>

lemma list_all_wf_shapes:
  "shapes comps' = shapes comps \<Longrightarrow>
   list_all (\<lambda>kc. wf_component (snd kc)) comps' = list_all (\<lambda>kc. wf_component (snd kc)) comps"
proof (induction comps arbitrary: comps')
  case Nil
  then show ?case by (simp add: shapes_def)
next
  case (Cons kc comps)
  then obtain kc' rest' where c': "comps' = kc' # rest'"
    by (cases comps') (auto simp: shapes_def)
  with Cons.prems have "shape_c (snd kc') = shape_c (snd kc)" "shapes rest' = shapes comps"
    by (simp_all add: shapes_def)
  with Cons.IH [of rest'] c' wf_component_shape [of "snd kc'" "snd kc"] show ?case
    by simp
qed

lemma wf_comps_shapes: "shapes comps' = shapes comps \<Longrightarrow> wf_comps comps' = wf_comps comps"
proof -
  assume s: "shapes comps' = shapes comps"
  then have "map fst (shapes comps') = map fst (shapes comps)" by simp
  then have "map fst comps' = map fst comps" by (simp only: map_fst_shapes)
  with list_all_wf_shapes [OF s] show ?thesis
    by (simp add: wf_comps_def)
qed

lemma wf_circuit_step [simp]: "wf_circuit (snd (step c)) = wf_circuit c"
  unfolding wf_circuit_def by (rule wf_comps_shapes [OF step_shapes])

lemma wf_circuit_set_switch [simp]: "wf_circuit (snd (set_switch k v c)) = wf_circuit c"
  unfolding wf_circuit_def by (rule wf_comps_shapes [OF set_switch_shapes])

lemma wf_circuit_toggle_switch [simp]: "wf_circuit (snd (toggle_switch k c)) = wf_circuit c"
  unfolding wf_circuit_def by (rule wf_comps_shapes [OF toggle_switch_shapes])

lemma variant_new:
  "variant (SwitchBinary i v) = VSwitchBinary (if v \<noteq> 0 then 1 else 0)"
  "variant (SwitchTernary i v) = VSwitchTernary (clamp_t v)"
  "variant (TNOT i) = VTNOT" "variant (TAND i) = VTAND" "variant (TNOR i) = VTNOR"
  "variant (Transistor i) = VTransistor" "variant (TLatch i) = VTLatch 0"
  "variant (Probe i) = VProbe 0" "variant (TFullAdder i) = VTFullAdder"
  by (simp_all add: SwitchBinary_def SwitchTernary_def TNOT_def TAND_def TNOR_def
        Transistor_def TLatch_def Probe_def TFullAdder_def Let_def)

lemma SwitchBinary_set_out:
  "fst (set_out ''out'' v
     \<lparr>id_c = ident, type_c = ''SwitchBinary'',
      ports = [new_port ''out'' ''out''], variant = VSwitchBinary v\<rparr>) = None"
  by (simp add: set_out_def set_port_value_fst new_port_def)

lemma SwitchTernary_set_out:
  "fst (set_out ''out'' v
     \<lparr>id_c = ident, type_c = ''SwitchTernary'',
      ports = [new_port ''out'' ''out''], variant = VSwitchTernary v\<rparr>) = None"
  by (simp add: set_out_def set_port_value_fst new_port_def)

lemma wf_component_new [simp]:
  "wf_component (SwitchBinary i v)" "wf_component (SwitchTernary i v)"
  "wf_component (TNOT i)" "wf_component (TAND i)" "wf_component (TNOR i)"
  "wf_component (Transistor i)" "wf_component (TLatch i)" "wf_component (Probe i)"
  "wf_component (TFullAdder i)"
  by (simp_all add: wf_component_def fresh_port_shapes variant_new)

subsection \<open>The range of the values is kept\<close>

lemma trit_component_set_port_value:
  "trit_component cmp \<Longrightarrow> trit v \<Longrightarrow> trit_component (snd (set_port_value n v cmp))"
  by (simp add: trit_component_def set_port_value_trit_ports)

lemma trit_component_set_out:
  "trit_component cmp \<Longrightarrow> trit_component (snd (set_out n v cmp))"
  by (simp add: set_out_def trit_component_set_port_value)

lemma trit_component_variant:
  "trit_component cmp \<Longrightarrow> trit_variant v \<Longrightarrow> trit_component (cmp\<lparr>variant := v\<rparr>)"
  by (simp add: trit_component_def)

lemma trit_component_get_in:
  "trit_component cmp \<Longrightarrow> get_in n cmp = Inr x \<Longrightarrow> trit x"
  by (auto simp: trit_component_def dest: trit_get_in)

lemma step_c_trit: "trit_component cmp \<Longrightarrow> trit_component (snd (step_c cmp))"
proof -
  assume t: "trit_component cmp"
  have g: "\<And>n x. get_in n cmp = Inr x \<Longrightarrow> trit x"
    using t by (rule trit_component_get_in)
  show ?thesis
  proof (cases "variant cmp")
    case (VTLatch st)
    have "trit st" using t VTLatch by (simp add: trit_component_def)
    then show ?thesis
      using t g VTLatch
      by (auto simp: step_c_def snd_with_val trit_component_set_out trit_component_variant
            split: sum.splits)
  next
    case (VProbe l)
    then show ?thesis
      using t g
      by (auto simp: step_c_def snd_with_val trit_component_variant split: sum.splits)
  next
    case VTFullAdder
    then show ?thesis
      using t
      by (auto simp: step_c_def snd_with_val snd_then_do Let_def trit_component_set_out
            split: sum.splits option.splits)
  qed (use t in \<open>auto simp: step_c_def snd_with_val trit_component_set_out
         split: sum.splits\<close>)
qed

lemma index_of_order: "index_of [- 1, 0, 1] v = Inr i \<Longrightarrow> i < 3"
  by (auto split: if_splits)

lemma toggle_trit: "trit_component cmp \<Longrightarrow> trit_component (snd (toggle cmp))"
proof -
  assume t: "trit_component cmp"
  show ?thesis
  proof (cases "variant cmp")
    case (VSwitchBinary v)
    then show ?thesis
      using t
      by (simp add: toggle_def Let_def trit_component_set_out trit_component_variant trit_def)
  next
    case (VSwitchTernary v)
    have "trit ([- 1, 0, 1] ! ((i + 1) mod 3))" for i :: nat
    proof -
      have "(i + 1) mod 3 = 0 \<or> (i + 1) mod 3 = 1 \<or> (i + 1) mod 3 = 2" by arith
      then show ?thesis by (auto simp: trit_def)
    qed
    then show ?thesis
      using t VSwitchTernary
      by (simp add: toggle_def Let_def snd_with_val trit_component_set_out
            trit_component_variant trit_def split: sum.splits)
  qed (use t in \<open>simp_all add: toggle_def\<close>)
qed

lemma trit_comps_map_of:
  "trit_comps comps \<Longrightarrow> map_of comps k = Some cmp \<Longrightarrow> trit_component cmp"
  by (fastforce simp: trit_comps_def list_all_iff dest: map_of_SomeD)

lemma trit_comps_update:
  "trit_comps comps \<Longrightarrow> trit_component cmp \<Longrightarrow> trit_comps (AList.update k cmp comps)"
  by (induction comps) (auto simp: trit_comps_def)

lemma write_inputs_trit: "trit_comps comps \<Longrightarrow> trit_comps (snd (write_inputs inp comps))"
proof (induction inp comps rule: write_inputs.induct)
  case (1 comps)
  then show ?case by simp
next
  case (2 comp_id port_name drivers rest comps)
  show ?case
  proof (cases "map_of comps comp_id")
    case None
    with 2 show ?thesis by simp
  next
    case (Some cmp)
    obtain e cmp' where r: "set_port_value port_name (resolve_wire drivers) cmp = (e, cmp')"
      by (cases "set_port_value port_name (resolve_wire drivers) cmp")
    have "trit_component cmp" using "2.prems" Some by (rule trit_comps_map_of)
    then have "trit_component cmp'"
      using trit_component_set_port_value [of cmp "resolve_wire drivers" port_name] r by simp
    then have "trit_comps (AList.update comp_id cmp' comps)"
      using "2.prems" by (simp add: trit_comps_update)
    then show ?thesis
      using 2 Some r by (cases e) simp_all
  qed
qed

lemma step_components_trit: "trit_comps comps \<Longrightarrow> trit_comps (snd (step_components comps))"
proof (induction comps)
  case Nil
  show ?case by (simp add: trit_comps_def)
next
  case (Cons kc comps)
  obtain k cmp where kc: "kc = (k, cmp)" by (cases kc)
  obtain e cmp' where r: "step_c cmp = (e, cmp')" by (cases "step_c cmp")
  have "trit_component cmp" using Cons.prems kc by (simp add: trit_comps_def)
  then have c': "trit_component cmp'" using step_c_trit [of cmp] r by simp
  obtain e2 rest' where r2: "step_components comps = (e2, rest')"
    by (cases "step_components comps")
  have "trit_comps comps" using Cons.prems by (simp add: trit_comps_def)
  with Cons.IH r2 have ih: "trit_comps rest'" by simp
  show ?case
    using kc r r2 c' ih \<open>trit_comps comps\<close> by (cases e) (simp_all add: trit_comps_def)
qed

lemma step_trit: "trit_circuit c \<Longrightarrow> trit_circuit (snd (step c))"
proof -
  assume t: "trit_circuit c"
  show ?thesis
  proof (cases "collect_drivers (components c) (wires c) []")
    case (Inl e)
    with t show ?thesis by (simp add: step_def)
  next
    case (Inr inp)
    obtain e comps where w: "write_inputs inp (components c) = (e, comps)"
      by (cases "write_inputs inp (components c)")
    have s1: "trit_comps comps"
      using write_inputs_trit [of "components c" inp] w t by (simp add: trit_circuit_def)
    obtain e2 comps' where s: "step_components comps = (e2, comps')"
      by (cases "step_components comps")
    have s2: "trit_comps comps'"
      using step_components_trit [OF s1] s by simp
    show ?thesis
      using Inr w s s1 s2 by (cases e) (simp_all add: step_def trit_circuit_def)
  qed
qed

lemma set_switch_trit: "trit_circuit c \<Longrightarrow> trit_circuit (snd (set_switch k v c))"
proof -
  assume t: "trit_circuit c"
  show ?thesis
  proof (cases "map_of (components c) k")
    case None
    with t show ?thesis by (simp add: set_switch_def)
  next
    case (Some cmp)
    have tc: "trit_component cmp"
      using t Some by (auto simp: trit_circuit_def dest: trit_comps_map_of)
    have b: "trit (if v \<noteq> 0 then 1 else 0)" by (simp add: trit_def)
    show ?thesis
      using t tc b
      by (cases "variant cmp")
         (simp_all add: set_switch_def Some Let_def trit_circuit_def trit_comps_update
            trit_component_set_out trit_component_variant)
  qed
qed

lemma toggle_switch_trit: "trit_circuit c \<Longrightarrow> trit_circuit (snd (toggle_switch k c))"
proof -
  assume t: "trit_circuit c"
  show ?thesis
  proof (cases "map_of (components c) k")
    case None
    with t show ?thesis by (simp add: toggle_switch_def)
  next
    case (Some cmp)
    have tc: "trit_component cmp"
      using t Some by (auto simp: trit_circuit_def dest: trit_comps_map_of)
    show ?thesis
      using t toggle_trit [OF tc]
      by (simp add: toggle_switch_def Some Let_def trit_circuit_def trit_comps_update)
  qed
qed

lemma add_trit:
  "trit_circuit c \<Longrightarrow> trit_component cmp \<Longrightarrow> trit_circuit (snd (add cmp c))"
  by (simp add: add_def trit_circuit_def trit_comps_update)

lemma connect_trit: "trit_circuit c \<Longrightarrow> trit_circuit (snd (connect sc sp dc dp c))"
  by (simp add: connect_def trit_circuit_def)

lemma trit_component_new:
  "trit_component (SwitchBinary i v)" "trit_component (SwitchTernary i v)"
  "trit_component (TNOT i)" "trit_component (TAND i)" "trit_component (TNOR i)"
  "trit_component (Transistor i)" "trit_component (TLatch i)" "trit_component (Probe i)"
  "trit_component (TFullAdder i)"
  by (simp_all add: SwitchBinary_def SwitchTernary_def TNOT_def TAND_def TNOR_def
        Transistor_def TLatch_def Probe_def TFullAdder_def Let_def set_out_def
        set_port_value_def new_port_def trit_component_def trit_ports_def)
     (simp_all add: trit_def)

subsection \<open>Reading a probe\<close>

lemma variant_set_out_toggle:
  "(\<exists>seen. variant (snd (toggle cmp)) = VProbe seen) = (\<exists>seen. variant cmp = VProbe seen)"
  "variant cmp = VProbe seen \<Longrightarrow> snd (toggle cmp) = cmp"
  by (cases "variant cmp"; simp add: toggle_def Let_def snd_with_val split: sum.splits)+

lemma get_probe_toggle_switch: "get_probe k' (snd (toggle_switch k c)) = get_probe k' c"
proof (cases "map_of (components c) k")
  case None
  then show ?thesis by (simp add: toggle_switch_def)
next
  case (Some cmp)
  show ?thesis
  proof (cases "variant cmp")
    case (VProbe seen)
    then have "snd (toggle cmp) = cmp" by (rule variant_set_out_toggle(2))
    then show ?thesis
      using Some by (simp add: toggle_switch_def Let_def get_probe_def update_conv')
  qed (use Some in \<open>simp_all add: toggle_switch_def Let_def get_probe_def update_conv'
         toggle_def snd_with_val split: sum.splits\<close>)
qed

lemma get_probe_set_switch: "get_probe k' (snd (set_switch k v c)) = get_probe k' c"
proof (cases "map_of (components c) k")
  case None
  then show ?thesis by (simp add: set_switch_def)
next
  case (Some cmp)
  then show ?thesis
    by (cases "variant cmp")
       (simp_all add: set_switch_def Let_def get_probe_def update_conv')
qed

lemma get_probe_connect: "get_probe k' (snd (connect sc sp dc dp c)) = get_probe k' c"
  by (simp add: connect_def get_probe_def)

lemma get_probe_add_Probe:
  "fst (add (Probe i) c) = None \<Longrightarrow> get_probe i (snd (add (Probe i) c)) = Inr 0"
  by (simp add: add_def get_probe_def update_conv' Probe_def split: if_splits)

lemma get_probe_add_other:
  "id_c cmp \<noteq> k' \<Longrightarrow> get_probe k' (snd (add cmp c)) = get_probe k' c"
  by (simp add: add_def get_probe_def update_conv')

subsection \<open>Which ports exist depends on the structure alone\<close>

lemma map_of_shapes: "map_of (shapes comps) k = map_option shape_c (map_of comps k)"
  by (induction comps) (auto simp: shapes_def)

lemma map_of_port_shape:
  "map_of (port_shape ps) n = map_option (\<lambda>p. (id_p p, direction p)) (map_of ps n)"
  by (induction ps) (auto simp: port_shape_def)

lemma port_dir_shapes:
  "port_dir comps k n =
     (case map_of (shapes comps) k of
        None \<Rightarrow> None
      | Some sh \<Rightarrow> map_option snd (map_of (snd (snd (snd sh))) n))"
  by (simp add: port_dir_def port_of_def map_of_shapes shape_c_def map_of_port_shape
        option.map_comp comp_def split: option.splits)

lemma port_dir_cong: "shapes comps' = shapes comps \<Longrightarrow> port_dir comps' k n = port_dir comps k n"
  by (simp add: port_dir_shapes)

lemma port_of_None_iff: "(port_of comps k n = None) = (port_dir comps k n = None)"
  by (simp add: port_dir_def)

lemma port_of_cong:
  "shapes comps' = shapes comps \<Longrightarrow> (port_of comps' k n = None) = (port_of comps k n = None)"
  unfolding port_of_None_iff by (simp only: port_dir_cong [of comps' comps])

subsection \<open>When the loops of a step raise\<close>

lemma collect_drivers_ok:
  "(\<exists>inp'. collect_drivers comps ws inp = Inr inp') =
   list_all (\<lambda>w. port_of comps (src_comp w) (src_port w) \<noteq> None) ws"
  by (induction ws arbitrary: inp) (auto simp: port_of_def split: option.splits)

lemma collect_drivers_error:
  "collect_drivers comps ws inp = Inl e \<Longrightarrow> e = UnknownComponentError \<or> e = UnknownPortError"
  by (induction ws arbitrary: inp) (auto split: option.splits)

lemma append_driver_keys: "fst ` set (append_driver key v inp) = insert key (fst ` set inp)"
  by (simp add: append_driver_def dom_update)

lemma collect_drivers_keys:
  "collect_drivers comps ws inp = Inr inp' \<Longrightarrow>
   fst ` set inp' = fst ` set inp \<union> (\<lambda>w. (dst_comp w, dst_port w)) ` set ws"
proof (induction ws arbitrary: inp)
  case Nil
  then show ?case by simp
next
  case (Cons w ws)
  from Cons.prems obtain src p where
    s: "map_of comps (src_comp w) = Some src" "map_of (ports src) (src_port w) = Some p"
    and r: "collect_drivers comps ws (append_driver (dst_comp w, dst_port w) (value_p p) inp) = Inr inp'"
    by (auto split: option.splits)
  from Cons.IH [OF r] show ?case
    by (auto simp: append_driver_keys)
qed

lemma write_inputs_ok:
  "(fst (write_inputs inp comps) = None) =
   list_all (\<lambda>kd. port_of comps (fst (fst kd)) (snd (fst kd)) \<noteq> None) inp"
proof (induction inp comps rule: write_inputs.induct)
  case (1 comps)
  show ?case by simp
next
  case (2 comp_id port_name drivers rest comps)
  show ?case
  proof (cases "map_of comps comp_id")
    case None
    then show ?thesis by (simp add: port_of_def)
  next
    case (Some cmp)
    obtain e cmp' where r: "set_port_value port_name (resolve_wire drivers) cmp = (e, cmp')"
      by (cases "set_port_value port_name (resolve_wire drivers) cmp")
    have e: "e = (if map_of (ports cmp) port_name = None then Some UnknownPortError else None)"
      using set_port_value_fst [of port_name "resolve_wire drivers" cmp] r by simp
    show ?thesis
    proof (cases "map_of (ports cmp) port_name")
      case None
      with Some r e show ?thesis by (simp add: port_of_def)
    next
      case (Some p)
      have sh: "shapes (AList.update comp_id cmp' comps) = shapes comps"
        using shape_c_set_port_value [of port_name "resolve_wire drivers" cmp] r
          \<open>map_of comps comp_id = Some cmp\<close>
        by (simp add: shapes_update)
      have "(fst (write_inputs rest (AList.update comp_id cmp' comps)) = None) =
          list_all (\<lambda>kd. port_of comps (fst (fst kd)) (snd (fst kd)) \<noteq> None) rest"
        using "2.IH" [OF \<open>map_of comps comp_id = Some cmp\<close> r [symmetric]] e Some
          port_of_cong [OF sh]
        by simp
      with Some \<open>map_of comps comp_id = Some cmp\<close> r e show ?thesis
        by (simp add: port_of_def)
    qed
  qed
qed

lemma write_inputs_error:
  "fst (write_inputs inp comps) = Some e \<Longrightarrow>
   e = UnknownComponentError \<or> e = UnknownPortError"
proof (induction inp comps rule: write_inputs.induct)
  case (1 comps)
  then show ?case by simp
next
  case (2 comp_id port_name drivers rest comps)
  show ?case
  proof (cases "map_of comps comp_id")
    case None
    with "2.prems" show ?thesis by simp
  next
    case (Some cmp)
    obtain e' cmp' where r: "set_port_value port_name (resolve_wire drivers) cmp = (e', cmp')"
      by (cases "set_port_value port_name (resolve_wire drivers) cmp")
    have e': "e' = (if map_of (ports cmp) port_name = None then Some UnknownPortError else None)"
      using set_port_value_fst [of port_name "resolve_wire drivers" cmp] r by simp
    show ?thesis
    proof (cases e')
      case None
      with "2.IH" [OF Some r [symmetric]] "2.prems" Some r show ?thesis by simp
    next
      case (Some err)
      with "2.prems" \<open>map_of comps comp_id = Some cmp\<close> r e' show ?thesis
        by (simp split: if_splits)
    qed
  qed
qed

lemma step_components_ok:
  "list_all (\<lambda>kc. wf_component (snd kc)) comps \<Longrightarrow> fst (step_components comps) = None"
proof (induction comps)
  case Nil
  show ?case by simp
next
  case (Cons kc comps)
  obtain k cmp where kc: "kc = (k, cmp)" by (cases kc)
  obtain e cmp' where r: "step_c cmp = (e, cmp')" by (cases "step_c cmp")
  have "e = None" using step_c_ok [of cmp] Cons.prems kc r by simp
  moreover obtain e2 rest' where r2: "step_components comps = (e2, rest')"
    by (cases "step_components comps")
  moreover have "e2 = None" using Cons r2 by simp
  ultimately show ?case using kc r by simp
qed


lemma step_third_loop:
  "collect_drivers (components c) (wires c) [] = Inr inp \<Longrightarrow>
   write_inputs inp (components c) = (None, comps) \<Longrightarrow>
   step c = (fst (step_components comps),
             c\<lparr>components := snd (step_components comps)\<rparr>)"
  by (simp add: step_def split: prod.splits)

lemma step_ok_iff:
  assumes wf: "wf_circuit c"
  shows "(fst (step c) = None) = list_all (valid_wire (components c)) (wires c)"
proof (cases "collect_drivers (components c) (wires c) []")
  case (Inl e)
  then have "\<not> list_all (\<lambda>w. port_of (components c) (src_comp w) (src_port w) \<noteq> None) (wires c)"
    using collect_drivers_ok [of "components c" "wires c" "[]"] by simp
  then have "\<not> list_all (valid_wire (components c)) (wires c)"
    by (auto simp: list_all_iff valid_wire_def)
  with Inl show ?thesis by (simp add: step_def)
next
  case (Inr inp)
  then have src: "list_all (\<lambda>w. port_of (components c) (src_comp w) (src_port w) \<noteq> None) (wires c)"
    using collect_drivers_ok [of "components c" "wires c" "[]"] by simp
  have keys: "fst ` set inp = (\<lambda>w. (dst_comp w, dst_port w)) ` set (wires c)"
    using collect_drivers_keys [OF Inr] by simp
  obtain e comps where w: "write_inputs inp (components c) = (e, comps)"
    by (cases "write_inputs inp (components c)")
  have "(e = None) =
      list_all (\<lambda>kd. port_of (components c) (fst (fst kd)) (snd (fst kd)) \<noteq> None) inp"
    using write_inputs_ok [of inp "components c"] w by simp
  also have "\<dots> = (\<forall>key \<in> fst ` set inp. port_of (components c) (fst key) (snd key) \<noteq> None)"
    by (auto simp: list_all_iff)
  also have "\<dots> = list_all (\<lambda>w. port_of (components c) (dst_comp w) (dst_port w) \<noteq> None) (wires c)"
    unfolding keys by (auto simp: list_all_iff)
  finally have e: "(e = None) =
      list_all (\<lambda>w. port_of (components c) (dst_comp w) (dst_port w) \<noteq> None) (wires c)" .
  have valid: "list_all (valid_wire (components c)) (wires c) = (e = None)"
    using src unfolding e by (auto simp: list_all_iff valid_wire_def)
  show ?thesis
  proof (cases e)
    case (Some err)
    with Inr w valid show ?thesis by (simp add: step_def)
  next
    case None
    have "shapes comps = shapes (components c)"
      using write_inputs_shapes [of inp "components c"] w by simp
    then have "list_all (\<lambda>kc. wf_component (snd kc)) comps"
      using wf list_all_wf_shapes [of comps "components c"]
      by (simp add: wf_circuit_def wf_comps_def)
    then have "fst (step_components comps) = None"
      by (rule step_components_ok)
    with Inr w None valid show ?thesis
      by (simp add: step_third_loop [of c inp comps])
  qed
qed

lemma step_error_kind:
  assumes wf: "wf_circuit c"
  shows "fst (step c) = None \<or> fst (step c) = Some UnknownComponentError
       \<or> fst (step c) = Some UnknownPortError"
proof (cases "collect_drivers (components c) (wires c) []")
  case (Inl e)
  with collect_drivers_error [OF Inl] show ?thesis by (auto simp: step_def)
next
  case (Inr inp)
  obtain e comps where w: "write_inputs inp (components c) = (e, comps)"
    by (cases "write_inputs inp (components c)")
  show ?thesis
  proof (cases e)
    case (Some err)
    then have "err = UnknownComponentError \<or> err = UnknownPortError"
      using write_inputs_error [of inp "components c" err] w by simp
    with Inr w Some show ?thesis by (auto simp: step_def)
  next
    case None
    have "shapes comps = shapes (components c)"
      using write_inputs_shapes [of inp "components c"] w by simp
    then have "list_all (\<lambda>kc. wf_component (snd kc)) comps"
      using wf list_all_wf_shapes [of comps "components c"]
      by (simp add: wf_circuit_def wf_comps_def)
    then have "fst (step_components comps) = None"
      by (rule step_components_ok)
    with Inr w None show ?thesis
      by (simp add: step_third_loop [of c inp comps])
  qed
qed

subsection \<open>The third loop, component by component\<close>

lemma update_as_map:
  "distinct (map fst al) \<Longrightarrow> map_of al k = Some v0 \<Longrightarrow>
   AList.update k v al = map (\<lambda>kv. if fst kv = k then (k, v) else kv) al"
proof (induction al)
  case Nil
  then show ?case by simp
next
  case (Cons a al)
  show ?case
  proof (cases "fst a = k")
    case True
    then have "k \<notin> fst ` set al" using Cons.prems by auto
    then have "map (\<lambda>kv. if fst kv = k then (k, v) else kv) al = al"
      by (induction al) auto
    with True show ?thesis by simp
  next
    case False
    with Cons show ?thesis by simp
  qed
qed

lemma step_components_map:
  "list_all (\<lambda>kc. wf_component (snd kc)) comps \<Longrightarrow>
   step_components comps = (None, map (\<lambda>kc. (fst kc, snd (step_c (snd kc)))) comps)"
proof (induction comps)
  case Nil
  show ?case by simp
next
  case (Cons kc comps)
  obtain k cmp where kc: "kc = (k, cmp)" by (cases kc)
  obtain e cmp' where r: "step_c cmp = (e, cmp')" by (cases "step_c cmp")
  have "e = None" using step_c_ok [of cmp] Cons.prems kc r by simp
  with Cons kc r show ?case by simp
qed

lemma step_in_order_map:
  "distinct ks \<Longrightarrow> set ks \<subseteq> fst ` set comps \<Longrightarrow> distinct (map fst comps) \<Longrightarrow>
   list_all (\<lambda>kc. wf_component (snd kc)) comps \<Longrightarrow>
   step_in_order ks comps =
     (None, map (\<lambda>kc. (fst kc, if fst kc \<in> set ks then snd (step_c (snd kc)) else snd kc)) comps)"
proof (induction ks arbitrary: comps)
  case Nil
  show ?case by (simp add: map_idI)
next
  case (Cons k ks)
  from Cons.prems(2) have "k \<in> fst ` set comps" by simp
  then obtain cmp where m: "map_of comps k = Some cmp"
    by (metis map_of_eq_None_iff not_None_eq)
  then have mem: "(k, cmp) \<in> set comps" by (rule map_of_SomeD)
  then have wfc: "wf_component cmp"
    using Cons.prems(4) by (auto simp: list_all_iff)
  obtain e cmp' where r: "step_c cmp = (e, cmp')" by (cases "step_c cmp")
  have e: "e = None" using step_c_ok [OF wfc] r by simp
  let ?comps1 = "AList.update k cmp' comps"
  have c1: "?comps1 = map (\<lambda>kv. if fst kv = k then (k, cmp') else kv) comps"
    using Cons.prems(3) m by (rule update_as_map)
  have sh: "shapes ?comps1 = shapes comps"
    using m step_c_shape [of cmp] r by (simp add: shapes_update)
  have keys: "map fst ?comps1 = map fst comps"
    using sh map_fst_shapes by metis
  have d1: "distinct (map fst ?comps1)" using keys Cons.prems(3) by simp
  have s1: "set ks \<subseteq> fst ` set ?comps1"
  proof -
    have "fst ` set ?comps1 = set (map fst ?comps1)" by simp
    also have "\<dots> = fst ` set comps" unfolding keys by simp
    finally show ?thesis using Cons.prems(2) by simp
  qed
  have w1: "list_all (\<lambda>kc. wf_component (snd kc)) ?comps1"
    using list_all_wf_shapes [OF sh] Cons.prems(4) by simp
  have dk: "distinct ks" "k \<notin> set ks" using Cons.prems(1) by simp_all
  have ih: "step_in_order ks ?comps1 =
     (None, map (\<lambda>kc. (fst kc, if fst kc \<in> set ks then snd (step_c (snd kc)) else snd kc)) ?comps1)"
    using Cons.IH [OF dk(1) s1 d1 w1] .
  have uniq: "snd kc = cmp" if "kc \<in> set comps" "fst kc = k" for kc
  proof -
    have "map_of comps (fst kc) = Some (snd kc)"
      using Cons.prems(3) that(1) by (cases kc) simp
    with m that(2) show ?thesis by simp
  qed
  have eq: "map (\<lambda>kc. (fst kc, if fst kc \<in> set ks then snd (step_c (snd kc)) else snd kc)) ?comps1
      = map (\<lambda>kc. (fst kc, if fst kc \<in> set (k # ks) then snd (step_c (snd kc)) else snd kc)) comps"
    unfolding c1 map_map
  proof (rule map_cong [OF refl])
    fix kc assume "kc \<in> set comps"
    then show "((\<lambda>kc. (fst kc, if fst kc \<in> set ks then snd (step_c (snd kc)) else snd kc)) \<circ>
          (\<lambda>kv. if fst kv = k then (k, cmp') else kv)) kc =
        (fst kc, if fst kc \<in> set (k # ks) then snd (step_c (snd kc)) else snd kc)"
      using uniq [of kc] dk(2) r by (cases "fst kc = k") auto
  qed
  show ?case
    using m r e ih eq by simp
qed

lemma step_in_order_perm:
  assumes "mset ks = mset (map fst comps)" and "distinct (map fst comps)"
    and "list_all (\<lambda>kc. wf_component (snd kc)) comps"
  shows "step_in_order ks comps = step_components comps"
proof -
  have d: "distinct ks" using assms(1,2) by (metis mset_eq_imp_distinct_iff)
  have s: "set ks = fst ` set comps" using assms(1) by (metis mset_eq_setD set_map)
  have "step_in_order ks comps =
     (None, map (\<lambda>kc. (fst kc, if fst kc \<in> set ks then snd (step_c (snd kc)) else snd kc)) comps)"
    using d s assms(2,3) by (intro step_in_order_map) auto
  also have "map (\<lambda>kc. (fst kc, if fst kc \<in> set ks then snd (step_c (snd kc)) else snd kc)) comps
      = map (\<lambda>kc. (fst kc, snd (step_c (snd kc)))) comps"
    using s by (intro map_cong) auto
  finally show ?thesis
    using step_components_map [OF assms(3)] by simp
qed

subsection \<open>What the first loop collects\<close>

lemma map_of_append_driver:
  "map_of (append_driver key v inp) key' =
     (if key' = key then Some ((case map_of inp key of None \<Rightarrow> [] | Some ds \<Rightarrow> ds) @ [v])
      else map_of inp key')"
  by (simp add: append_driver_def update_conv')

lemma source_values_Nil [simp]: "source_values comps [] = []"
  by (simp add: source_values_def)

lemma source_values_Cons:
  "source_values comps (w # ws) =
     (case port_val comps (src_comp w) (src_port w) of None \<Rightarrow> [] | Some v \<Rightarrow> [v])
     @ source_values comps ws"
  by (simp add: source_values_def)

lemma collect_drivers_map_of:
  "collect_drivers comps ws inp = Inr inp' \<Longrightarrow>
   map_of inp' (k, n) =
     (if list_ex (drives k n) ws
      then Some ((case map_of inp (k, n) of None \<Rightarrow> [] | Some ds \<Rightarrow> ds)
                 @ source_values comps (filter (drives k n) ws))
      else map_of inp (k, n))"
proof (induction ws arbitrary: inp)
  case Nil
  then show ?case by simp
next
  case (Cons w ws)
  from Cons.prems obtain src p where
    s: "map_of comps (src_comp w) = Some src" "map_of (ports src) (src_port w) = Some p"
    and r: "collect_drivers comps ws (append_driver (dst_comp w, dst_port w) (value_p p) inp) = Inr inp'"
    by (auto split: option.splits)
  have pv: "port_val comps (src_comp w) (src_port w) = Some (value_p p)"
    using s by (simp add: port_val_def port_of_def)
  have nil: "filter (drives k n) ws = []" if "\<not> list_ex (drives k n) ws"
    using that by (auto simp: list_ex_iff filter_empty_conv)
  show ?case
  proof (cases "drives k n w")
    case True
    then have key: "(dst_comp w, dst_port w) = (k, n)" by (simp add: drives_def)
    show ?thesis
      using Cons.IH [OF r] True pv nil
      by (simp add: key map_of_append_driver source_values_Cons)
  next
    case False
    then have key: "(k, n) \<noteq> (dst_comp w, dst_port w)" by (auto simp: drives_def)
    have "map_of (append_driver (dst_comp w, dst_port w) (value_p p) inp) (k, n) = map_of inp (k, n)"
      using key by (simp only: map_of_append_driver if_False)
    with Cons.IH [OF r] False show ?thesis
      by simp
  qed
qed

lemma collect_drivers_distinct:
  "collect_drivers comps ws inp = Inr inp' \<Longrightarrow> distinct (map fst inp) \<Longrightarrow>
   distinct (map fst inp')"
proof (induction ws arbitrary: inp)
  case Nil
  then show ?case by simp
next
  case (Cons w ws)
  from Cons.prems(1) obtain p :: Port where
    r: "collect_drivers comps ws (append_driver (dst_comp w, dst_port w) (value_p p) inp) = Inr inp'"
    by (auto split: option.splits)
  have "distinct (map fst (append_driver (dst_comp w, dst_port w) (value_p p) inp))"
    using Cons.prems(2) by (simp add: append_driver_def distinct_update)
  with Cons.IH [OF r] show ?case .
qed

subsection \<open>What the second loop writes\<close>

lemma port_val_write:
  "map_of comps c = Some cmp \<Longrightarrow> fst (set_port_value pn v cmp) = None \<Longrightarrow>
   port_val (AList.update c (snd (set_port_value pn v cmp)) comps) k n =
     (if k = c \<and> n = pn then Some v else port_val comps k n)"
  by (auto simp: port_val_def port_of_def update_conv' map_of_set_port_value
        set_port_value_fst split: if_splits option.splits)

lemma write_inputs_port_val:
  "distinct (map fst inp) \<Longrightarrow>
   (map_of inp (k, n) = None \<longrightarrow> port_val (snd (write_inputs inp comps)) k n = port_val comps k n)
   \<and> (\<forall>ds. map_of inp (k, n) = Some ds \<longrightarrow>
        port_val (snd (write_inputs inp comps)) k n = port_val comps k n
        \<or> port_val (snd (write_inputs inp comps)) k n = Some (resolve_wire ds))
   \<and> (\<forall>ds. map_of inp (k, n) = Some ds \<longrightarrow> fst (write_inputs inp comps) = None \<longrightarrow>
        port_val (snd (write_inputs inp comps)) k n = Some (resolve_wire ds))"
proof (induction inp comps rule: write_inputs.induct)
  case (1 comps)
  show ?case by simp
next
  case (2 comp_id port_name drivers rest comps)
  have d: "distinct (map fst rest)" and fresh: "map_of rest (comp_id, port_name) = None"
    using "2.prems" by (simp_all add: map_of_eq_None_iff)
  show ?case
  proof (cases "map_of comps comp_id")
    case None
    then show ?thesis by simp
  next
    case (Some cmp)
    obtain e cmp' where r: "set_port_value port_name (resolve_wire drivers) cmp = (e, cmp')"
      by (cases "set_port_value port_name (resolve_wire drivers) cmp")
    show ?thesis
    proof (cases e)
      case (Some err)
      with \<open>map_of comps comp_id = Some cmp\<close> r show ?thesis by simp
    next
      case None
      let ?comps1 = "AList.update comp_id cmp' comps"
      have pv: "port_val ?comps1 k n =
          (if k = comp_id \<and> n = port_name then Some (resolve_wire drivers) else port_val comps k n)"
        using port_val_write [OF Some, of port_name "resolve_wire drivers" k n] r None by simp
      have ih: "(map_of rest (k, n) = None \<longrightarrow>
            port_val (snd (write_inputs rest ?comps1)) k n = port_val ?comps1 k n)
        \<and> (\<forall>ds. map_of rest (k, n) = Some ds \<longrightarrow>
            port_val (snd (write_inputs rest ?comps1)) k n = port_val ?comps1 k n
            \<or> port_val (snd (write_inputs rest ?comps1)) k n = Some (resolve_wire ds))
        \<and> (\<forall>ds. map_of rest (k, n) = Some ds \<longrightarrow> fst (write_inputs rest ?comps1) = None \<longrightarrow>
            port_val (snd (write_inputs rest ?comps1)) k n = Some (resolve_wire ds))"
        using "2.IH" [OF Some r [symmetric] _ d] None by simp
      have unf: "write_inputs (((comp_id, port_name), drivers) # rest) comps =
          write_inputs rest ?comps1"
        using Some r None by simp
      show ?thesis
      proof (cases "k = comp_id \<and> n = port_name")
        case True
        with fresh have "map_of rest (k, n) = None" by simp
        with ih pv True show ?thesis
          unfolding unf by simp
      next
        case False
        then have "map_of (((comp_id, port_name), drivers) # rest) (k, n) = map_of rest (k, n)"
          by auto
        with ih pv False show ?thesis
          unfolding unf by simp
      qed
    qed
  qed
qed

subsection \<open>What the third loop leaves alone\<close>

lemma step_c_keeps_port:
  "n \<noteq> ''out'' \<Longrightarrow> n \<noteq> ''so'' \<Longrightarrow> n \<noteq> ''co'' \<Longrightarrow>
   map_of (ports (snd (step_c cmp))) n = map_of (ports cmp) n"
  by (cases "variant cmp")
     (simp_all add: step_c_def snd_with_val snd_then_do set_out_def map_of_set_port_value
        Let_def split: sum.splits option.splits)

lemma step_components_map_of:
  "map_of (snd (step_components comps)) k = map_of comps k
   \<or> (\<exists>cmp. map_of comps k = Some cmp
        \<and> map_of (snd (step_components comps)) k = Some (snd (step_c cmp)))"
proof (induction comps)
  case Nil
  show ?case by simp
next
  case (Cons kc comps)
  obtain k' cmp where kc: "kc = (k', cmp)" by (cases kc)
  obtain e cmp' where r: "step_c cmp = (e, cmp')" by (cases "step_c cmp")
  obtain e2 rest' where r2: "step_components comps = (e2, rest')"
    by (cases "step_components comps")
  show ?case
    using Cons kc r r2 by (cases e) auto
qed

lemma step_components_port_val:
  "n \<noteq> ''out'' \<Longrightarrow> n \<noteq> ''so'' \<Longrightarrow> n \<noteq> ''co'' \<Longrightarrow>
   port_val (snd (step_components comps)) k n = port_val comps k n"
  using step_components_map_of [of comps k]
  by (auto simp: port_val_def port_of_def step_c_keeps_port)

lemma input_port_name:
  assumes "wf_component cmp" and "map_of (ports cmp) n = Some p" and "direction p = ''in''"
  shows "n \<noteq> ''out'' \<and> n \<noteq> ''so'' \<and> n \<noteq> ''co''"
proof -
  have "map_of (port_shape (ports cmp)) n = Some (id_p p, ''in'')"
    using assms(2,3) by (simp add: map_of_port_shape)
  then have m: "map_of (port_shape (ports (fresh_of (variant cmp)))) n = Some (id_p p, ''in'')"
    using assms(1) by (simp add: wf_component_def)
  show ?thesis
    using m by (cases "variant cmp") (auto simp: fresh_port_shapes split: if_splits)
qed


lemma chain_example:
  "(let c0 = snd chain_circuit;
        c1 = snd (step c0); c2 = snd (step c1); c3 = snd (step c2);
        c4 = snd (toggle_switch ''sw'' c3); c5 = snd (step c4)
    in fst chain_circuit = None
     \<and> port_val (components c0) ''sw'' ''out'' = Some 1
     \<and> port_val (components c0) ''n1'' ''in'' = Some 0
     \<and> port_val (components c1) ''n1'' ''in'' = Some 1
     \<and> port_val (components c1) ''n1'' ''out'' = Some (- 1)
     \<and> port_val (components c1) ''n2'' ''in'' = Some 0
     \<and> get_probe ''p'' c1 = Inr 0
     \<and> port_val (components c2) ''n2'' ''in'' = Some (- 1)
     \<and> port_val (components c2) ''n2'' ''out'' = Some 1
     \<and> port_val (components c2) ''p'' ''in'' = Some 0
     \<and> get_probe ''p'' c2 = Inr 0
     \<and> port_val (components c3) ''p'' ''in'' = Some 1
     \<and> get_probe ''p'' c3 = Inr 1
     \<and> port_val (components c4) ''sw'' ''out'' = Some (- 1)
     \<and> port_val (components c4) ''n1'' ''in'' = Some 1
     \<and> port_val (components c5) ''n1'' ''in'' = Some (- 1))"
  by code_simp

section \<open>The properties\<close>

subsection \<open>Wire resolution\<close>

text \<open>
  C1. For every list of drivers, \<open>resolve_wire\<close> is 0 when both -1 and +1 are present,
  else +1 when +1 is present, else -1 when -1 is present, else 0 (also for the empty list).
  The result depends only on the set of values present, so neither the order nor the
  multiplicity of the drivers matters. In particular resolve [1,-1] = 0,
  resolve [1,1,0] = 1, resolve [-1,0] = -1, resolve [] = 0 and resolve [0,0] = 0.
\<close>

theorem resolve_wire_conflict_rule:
  "resolve_wire ds =
     (if - 1 \<in> set ds \<and> 1 \<in> set ds then 0
      else if 1 \<in> set ds then 1
      else if - 1 \<in> set ds then - 1
      else 0)
   \<and> (set ds = set ds' \<longrightarrow> resolve_wire ds = resolve_wire ds')
   \<and> (mset ds = mset ds' \<longrightarrow> resolve_wire ds = resolve_wire ds')
   \<and> resolve_wire (remdups ds) = resolve_wire ds
   \<and> resolve_wire [1, - 1] = 0
   \<and> resolve_wire [1, 1, 0] = 1
   \<and> resolve_wire [- 1, 0] = - 1
   \<and> resolve_wire [] = 0
   \<and> resolve_wire [0, 0] = 0"
proof -
  have set_only: "resolve_wire xs = resolve_wire ys" if "set xs = set ys" for xs ys
    using that by (simp add: resolve_wire_def)
  have perm: "resolve_wire ds = resolve_wire ds'" if "mset ds = mset ds'"
    using that set_only mset_eq_setD by blast
  show ?thesis
    using set_only [of ds ds'] perm
    by (simp add: resolve_wire_def)
qed

theorem resolve_wire_conflict_rule_witness:
  "set [1, 1, 0 :: int] = set [0, 1] \<and> mset [1, - 1, 0 :: int] = mset [0, 1, - 1]
   \<and> resolve_wire [1, 1, 0] = resolve_wire [0, 1]
   \<and> resolve_wire [1, - 1, 0] = resolve_wire [0, 1, - 1]"
proof -
  have s: "set [1, 1, 0 :: int] = set [0, 1]" by auto
  have m: "mset [1, - 1, 0 :: int] = mset [0, 1, - 1]" by simp
  show ?thesis
    using s m resolve_wire_conflict_rule [of "[1, 1, 0]" "[0, 1]"]
      resolve_wire_conflict_rule [of "[1, - 1, 0]" "[0, 1, - 1]"]
    by blast
qed

subsection \<open>A step reads the values of before the step\<close>

text \<open>
  C2. In every call of \<open>Circuit.step\<close> on a well-formed circuit, an input port that is the
  destination of at least one wire receives \<open>resolve_wire\<close> of the values that the sources
  of its wires held when the call began, and an input port that no wire drives keeps its
  value; nothing written during the call is read by it. (When the call raises, a driven
  input port holds either that resolved value or its old one.) So a new value at an output
  reaches a directly wired input with the next call of step and not before, and a value
  crosses a chain of N components in N calls: in the chain switch, inverter, inverter,
  probe the probe reads the switch after three steps and not after two.
\<close>

theorem step_reads_pre_step_values:
  assumes "wf_circuit c" and "port_dir (components c) k n = Some ''in''"
  shows "(fst (step c) = None \<longrightarrow>
            port_val (components (snd (step c))) k n =
              (if driven c k n then Some (resolve_wire (drivers_of c k n))
               else port_val (components c) k n))
    \<and> (\<not> driven c k n \<longrightarrow>
            port_val (components (snd (step c))) k n = port_val (components c) k n)
    \<and> (port_val (components (snd (step c))) k n = port_val (components c) k n
        \<or> port_val (components (snd (step c))) k n = Some (resolve_wire (drivers_of c k n)))
    \<and> (let c0 = snd chain_circuit;
            c1 = snd (step c0); c2 = snd (step c1); c3 = snd (step c2);
            c4 = snd (toggle_switch ''sw'' c3); c5 = snd (step c4)
        in fst chain_circuit = None
         \<and> port_val (components c0) ''sw'' ''out'' = Some 1
         \<and> port_val (components c0) ''n1'' ''in'' = Some 0
         \<and> port_val (components c1) ''n1'' ''in'' = Some 1
         \<and> port_val (components c1) ''n1'' ''out'' = Some (- 1)
         \<and> port_val (components c1) ''n2'' ''in'' = Some 0
         \<and> get_probe ''p'' c1 = Inr 0
         \<and> port_val (components c2) ''n2'' ''in'' = Some (- 1)
         \<and> port_val (components c2) ''n2'' ''out'' = Some 1
         \<and> port_val (components c2) ''p'' ''in'' = Some 0
         \<and> get_probe ''p'' c2 = Inr 0
         \<and> port_val (components c3) ''p'' ''in'' = Some 1
         \<and> get_probe ''p'' c3 = Inr 1
         \<and> port_val (components c4) ''sw'' ''out'' = Some (- 1)
         \<and> port_val (components c4) ''n1'' ''in'' = Some 1
         \<and> port_val (components c5) ''n1'' ''in'' = Some (- 1))"
proof -
  let ?pre = "port_val (components c) k n"
  let ?post = "port_val (components (snd (step c))) k n"
  let ?res = "Some (resolve_wire (drivers_of c k n))"
  from assms(2) obtain cmp p where
    m: "map_of (components c) k = Some cmp" "map_of (ports cmp) n = Some p"
      "direction p = ''in''"
    by (auto simp: port_dir_def port_of_def split: option.splits)
  have "wf_component cmp"
    using assms(1) map_of_SomeD [OF m(1)]
    by (auto simp: wf_circuit_def wf_comps_def list_all_iff)
  then have name: "n \<noteq> ''out''" "n \<noteq> ''so''" "n \<noteq> ''co''"
    using input_port_name [OF _ m(2,3)] by simp_all
  have main: "(fst (step c) = None \<longrightarrow> ?post = (if driven c k n then ?res else ?pre))
      \<and> (\<not> driven c k n \<longrightarrow> ?post = ?pre) \<and> (?post = ?pre \<or> ?post = ?res)"
  proof (cases "collect_drivers (components c) (wires c) []")
    case (Inl e)
    then show ?thesis by (simp add: step_def)
  next
    case (Inr inp)
    have d: "distinct (map fst inp)"
      using collect_drivers_distinct [OF Inr] by simp
    have look: "map_of inp (k, n) =
        (if driven c k n then Some (drivers_of c k n) else None)"
      using collect_drivers_map_of [OF Inr, of k n]
      by (simp add: driven_def drivers_of_def)
    obtain e comps where w: "write_inputs inp (components c) = (e, comps)"
      by (cases "write_inputs inp (components c)")
    note wi = write_inputs_port_val [OF d, of k n "components c"]
    have und: "\<not> driven c k n \<Longrightarrow> port_val comps k n = ?pre"
      using wi look w by simp
    have part: "port_val comps k n = ?pre \<or> port_val comps k n = ?res"
      using wi look w by (cases "driven c k n") simp_all
    have full: "e = None \<Longrightarrow> driven c k n \<Longrightarrow> port_val comps k n = ?res"
      using wi look w by simp
    show ?thesis
    proof (cases e)
      case (Some err)
      then have "step c = (Some err, c\<lparr>components := comps\<rparr>)"
        using Inr w by (simp add: step_def)
      with und part show ?thesis by simp
    next
      case None
      have "?post = port_val (snd (step_components comps)) k n"
        using step_third_loop [OF Inr] w None by simp
      then have "?post = port_val comps k n"
        using step_components_port_val [OF name, of comps k] by simp
      with und part full None show ?thesis by auto
    qed
  qed
  show ?thesis
    using main chain_example by blast
qed

theorem step_reads_pre_step_values_witness:
  "wf_circuit (snd smoke_circuit)
   \<and> port_dir (components (snd smoke_circuit)) ''nor1'' ''in2'' = Some ''in''
   \<and> fst (step (snd smoke_circuit)) = None
   \<and> driven (snd smoke_circuit) ''nor1'' ''in2''
   \<and> drivers_of (snd smoke_circuit) ''nor1'' ''in2'' = [- 1]
   \<and> port_val (components (snd (step (snd smoke_circuit)))) ''nor1'' ''in2'' = Some (- 1)
   \<and> wf_circuit (snd (add (TAND ''g'') Circuit_init))
   \<and> port_dir (components (snd (add (TAND ''g'') Circuit_init))) ''g'' ''in1'' = Some ''in''
   \<and> \<not> driven (snd (add (TAND ''g'') Circuit_init)) ''g'' ''in1''
   \<and> port_val (components (snd (step (snd (add (TAND ''g'') Circuit_init))))) ''g'' ''in1''
       = Some 0"
proof -
  let ?c = "snd smoke_circuit"
  let ?g = "snd (add (TAND ''g'') Circuit_init)"
  have a: "wf_circuit ?c" by code_simp
  have b: "port_dir (components ?c) ''nor1'' ''in2'' = Some ''in''" by code_simp
  have c: "fst (step ?c) = None" by code_simp
  have d: "driven ?c ''nor1'' ''in2''" by code_simp
  have e: "drivers_of ?c ''nor1'' ''in2'' = [- 1]" by code_simp
  have r: "resolve_wire [- 1] = - 1" by code_simp
  have a': "wf_circuit ?g" by code_simp
  have b': "port_dir (components ?g) ''g'' ''in1'' = Some ''in''" by code_simp
  have d': "\<not> driven ?g ''g'' ''in1''" by code_simp
  have v': "port_val (components ?g) ''g'' ''in1'' = Some 0" by code_simp
  show ?thesis
    using a b c d e r a' b' d' v'
      step_reads_pre_step_values [OF a b] step_reads_pre_step_values [OF a' b']
    by simp
qed

subsection \<open>The order of evaluation\<close>

text \<open>
  C3. The result of a step does not depend on the order in which the third loop calls the
  transfer functions. For a well-formed circuit and any permutation of the component ids,
  calling \<open>step\<close> on the components in that order leaves exactly the circuit that
  \<open>Circuit.step\<close> leaves (the same port values, latch states and probe observations) and
  raises exactly when it raises.
\<close>

theorem step_order_irrelevant:
  assumes "wf_circuit c" and "mset order = mset (map fst (components c))"
  shows "step_permuted order c = step c"
proof (cases "collect_drivers (components c) (wires c) []")
  case (Inl e)
  then show ?thesis by (simp add: step_permuted_def step_def)
next
  case (Inr inp)
  obtain e comps where w: "write_inputs inp (components c) = (e, comps)"
    by (cases "write_inputs inp (components c)")
  show ?thesis
  proof (cases e)
    case (Some err)
    with Inr w show ?thesis by (simp add: step_permuted_def step_def)
  next
    case None
    have sh: "shapes comps = shapes (components c)"
      using write_inputs_shapes [of inp "components c"] w by simp
    then have keys: "map fst comps = map fst (components c)"
      using map_fst_shapes by metis
    have wf: "list_all (\<lambda>kc. wf_component (snd kc)) comps"
      using assms(1) list_all_wf_shapes [OF sh] by (simp add: wf_circuit_def wf_comps_def)
    have d: "distinct (map fst comps)"
      using assms(1) keys by (simp add: wf_circuit_def wf_comps_def)
    have "step_in_order order comps = step_components comps"
      using assms(2) d wf unfolding keys [symmetric] by (rule step_in_order_perm)
    with Inr w None show ?thesis
      by (simp add: step_permuted_def step_def)
  qed
qed

theorem step_order_irrelevant_witness:
  "wf_circuit (snd smoke_circuit)
   \<and> mset [''p1'', ''l1'', ''t1'', ''nor1'', ''and1'', ''sw2'', ''sw1'']
       = mset (map fst (components (snd smoke_circuit)))
   \<and> step_permuted [''p1'', ''l1'', ''t1'', ''nor1'', ''and1'', ''sw2'', ''sw1'']
        (snd smoke_circuit) = step (snd smoke_circuit)"
proof -
  have wf: "wf_circuit (snd smoke_circuit)" by code_simp
  have k: "map fst (components (snd smoke_circuit))
      = [''sw1'', ''sw2'', ''and1'', ''nor1'', ''t1'', ''l1'', ''p1'']"
    by code_simp
  have m: "mset [''p1'', ''l1'', ''t1'', ''nor1'', ''and1'', ''sw2'', ''sw1'']
       = mset (map fst (components (snd smoke_circuit)))"
    unfolding k by (simp add: add_mset_commute)
  show ?thesis
    using wf m step_order_irrelevant [OF wf m] by simp
qed

subsection \<open>The full adder\<close>

text \<open>
  C4. The transfer function of TFullAdder: for inputs ai, bi, ci in {-1,0,1} the step
  succeeds and leaves so and co in {-1,0,1} with so + 3 * co = ai + bi + ci, where co is
  (ai + bi + ci) / 3 rounded to the nearest integer (a half away from zero) and clamped, and
  so is the clamped rest. In particular (1,1,1) gives so = 0, co = 1; (1,1,0) gives so = -1,
  co = 1; (-1,-1,-1) gives so = 0, co = -1.
\<close>

theorem TFullAdder_step_sum:
  assumes "wf_component cmp" and "variant cmp = VTFullAdder"
    and "get_in ''ai'' cmp = Inr a" and "get_in ''bi'' cmp = Inr b"
    and "get_in ''ci'' cmp = Inr c"
    and "trit a" and "trit b" and "trit c"
  shows "(\<exists>so co.
      fst (step_c cmp) = None
    \<and> get_in ''so'' (snd (step_c cmp)) = Inr so
    \<and> get_in ''co'' (snd (step_c cmp)) = Inr co
    \<and> so + 3 * co = a + b + c \<and> trit so \<and> trit co
    \<and> co = clamp_t (round_half_away (a + b + c) 3)
    \<and> so = clamp_t (a + b + c - 3 * co))
    \<and> get_in ''so'' (adder_at 1 1 1) = Inr 0 \<and> get_in ''co'' (adder_at 1 1 1) = Inr 1
    \<and> get_in ''so'' (adder_at 1 1 0) = Inr (- 1) \<and> get_in ''co'' (adder_at 1 1 0) = Inr 1
    \<and> get_in ''so'' (adder_at (- 1) (- 1) (- 1)) = Inr 0
    \<and> get_in ''co'' (adder_at (- 1) (- 1) (- 1)) = Inr (- 1)"
proof -
  let ?co0 = "py_round_div (a + b + c) 3"
  let ?co = "if ?co0 > 1 then 1 else if ?co0 < - 1 then - 1 else ?co0"
  let ?so = "a + b + c - 3 * ?co"
  have ar: "clamp_t ?co = clamp_t (round_half_away (a + b + c) 3)
       \<and> clamp_t ?so = clamp_t (a + b + c - 3 * clamp_t ?co)
       \<and> clamp_t ?so + 3 * clamp_t ?co = a + b + c"
    by (rule adder_arith [OF assms(6-8)])
  have co: "get_in ''co'' (snd (step_c cmp)) = Inr (clamp_t ?co)"
    by (rule step_c_adder(1) [OF assms(1-5)])
  have so: "get_in ''so'' (snd (step_c cmp)) = Inr (clamp_t ?so)"
    by (rule step_c_adder(2) [OF assms(1-5)])
  have ok: "fst (step_c cmp) = None"
    by (rule step_c_ok [OF assms(1)])
  have general: "\<exists>so co.
      fst (step_c cmp) = None
    \<and> get_in ''so'' (snd (step_c cmp)) = Inr so
    \<and> get_in ''co'' (snd (step_c cmp)) = Inr co
    \<and> so + 3 * co = a + b + c \<and> trit so \<and> trit co
    \<and> co = clamp_t (round_half_away (a + b + c) 3)
    \<and> so = clamp_t (a + b + c - 3 * co)"
  proof (intro exI conjI)
    show "fst (step_c cmp) = None" by (rule ok)
    show "get_in ''so'' (snd (step_c cmp)) = Inr (clamp_t ?so)" by (rule so)
    show "get_in ''co'' (snd (step_c cmp)) = Inr (clamp_t ?co)" by (rule co)
    show "clamp_t ?so + 3 * clamp_t ?co = a + b + c" using ar by blast
    show "trit (clamp_t ?so)" by (rule trit_clamp_t)
    show "trit (clamp_t ?co)" by (rule trit_clamp_t)
    show "clamp_t ?co = clamp_t (round_half_away (a + b + c) 3)" using ar by blast
    show "clamp_t ?so = clamp_t (a + b + c - 3 * clamp_t ?co)" using ar by blast
  qed
  show ?thesis
    using general adder_examples by blast
qed

theorem TFullAdder_step_sum_witness:
  "wf_component (with_inputs [(''ai'', 1), (''bi'', 0), (''ci'', 1)] (TFullAdder ''fa''))
   \<and> get_in ''so'' (adder_at 1 0 1) = Inr (- 1)
   \<and> get_in ''co'' (adder_at 1 0 1) = Inr 1"
proof -
  let ?cmp = "with_inputs [(''ai'', 1), (''bi'', 0), (''ci'', 1)] (TFullAdder ''fa'')"
  have wf: "wf_component ?cmp" by code_simp
  have v: "variant ?cmp = VTFullAdder" by code_simp
  have a: "get_in ''ai'' ?cmp = Inr 1" by code_simp
  have b: "get_in ''bi'' ?cmp = Inr 0" by code_simp
  have c: "get_in ''ci'' ?cmp = Inr 1" by code_simp
  have t: "trit 1" "trit 0" by (simp_all add: trit_def)
  from TFullAdder_step_sum [OF wf v a b c t(1) t(2) t(1)]
  obtain so co where
    "get_in ''so'' (snd (step_c ?cmp)) = Inr so" "get_in ''co'' (snd (step_c ?cmp)) = Inr co"
    "so + 3 * co = 1 + 0 + 1" "trit so" "trit co"
    by blast
  moreover from this have "so = - 1 \<and> co = 1"
    by (auto simp: trit_def)
  ultimately show ?thesis
    using wf by (simp add: adder_at_def drive_and_step_def)
qed

subsection \<open>The latch\<close>

text \<open>
  C5. The transfer function of TLatch: a step copies the input port into the internal state
  exactly when the enable port is +1 (0 and -1 both leave the state as it is), and every
  step sets the output port to the state as it then is. The state persists: after
  enable = 1, in = 1, then enable = 0, in = -1, then enable = -1, in = -1, state and output
  are still 1.
\<close>

theorem TLatch_step_hold:
  assumes "wf_component cmp" and "variant cmp = VTLatch st"
    and "get_in ''enable'' cmp = Inr en" and "get_in ''in'' cmp = Inr x"
  shows "fst (step_c cmp) = None
    \<and> variant (snd (step_c cmp)) = VTLatch (if en = 1 then x else st)
    \<and> get_in ''out'' (snd (step_c cmp)) = Inr (clamp_t (if en = 1 then x else st))
    \<and> (trit x \<and> trit st \<longrightarrow>
         get_in ''out'' (snd (step_c cmp)) = Inr (if en = 1 then x else st))
    \<and> (let l1 = drive_and_step [(''enable'', 1), (''in'', 1)] (TLatch ''l1'');
            l2 = drive_and_step [(''enable'', 0), (''in'', - 1)] l1;
            l3 = drive_and_step [(''enable'', - 1), (''in'', - 1)] l2
        in variant l1 = VTLatch 1 \<and> get_in ''out'' l1 = Inr 1
         \<and> variant l2 = VTLatch 1 \<and> get_in ''out'' l2 = Inr 1
         \<and> variant l3 = VTLatch 1 \<and> get_in ''out'' l3 = Inr 1)"
proof -
  have hp: "\<And>n. (map_of (ports cmp) n = None) =
      (n \<notin> fst ` set (port_shape (ports (fresh_of (variant cmp)))))"
    using wf_has_port [OF assms(1)] by blast
  have ok: "fst (step_c cmp) = None"
    by (rule step_c_ok [OF assms(1)])
  have st: "variant (snd (step_c cmp)) = VTLatch (if en = 1 then x else st)"
    by (simp add: step_c_def assms(2-4) set_out_def)
  have out: "get_in ''out'' (snd (step_c cmp)) = Inr (clamp_t (if en = 1 then x else st))"
    using hp [of "''out''"]
    by (simp add: step_c_def assms(2-4) set_out_def get_in_set_port_value fresh_port_shapes)
  have out': "get_in ''out'' (snd (step_c cmp)) = Inr (if en = 1 then x else st)"
    if "trit x" "trit st"
    using out that by (simp add: clamp_t_trit)
  show ?thesis
    using ok st out out' latch_example by blast
qed

theorem TLatch_step_hold_witness:
  "wf_component (with_inputs [(''enable'', 1), (''in'', - 1)] (TLatch ''l1''))
   \<and> trit (- 1) \<and> trit 0
   \<and> variant (drive_and_step [(''enable'', 1), (''in'', - 1)] (TLatch ''l1'')) = VTLatch (- 1)
   \<and> get_in ''out'' (drive_and_step [(''enable'', 1), (''in'', - 1)] (TLatch ''l1'')) = Inr (- 1)"
proof -
  let ?cmp = "with_inputs [(''enable'', 1), (''in'', - 1)] (TLatch ''l1'')"
  have wf: "wf_component ?cmp" by code_simp
  have v: "variant ?cmp = VTLatch 0" by code_simp
  have e: "get_in ''enable'' ?cmp = Inr 1" by code_simp
  have i: "get_in ''in'' ?cmp = Inr (- 1)" by code_simp
  have t: "trit (- 1)" "trit 0" by (simp_all add: trit_def)
  show ?thesis
    using TLatch_step_hold [OF wf v e i] wf t
    by (simp add: drive_and_step_def clamp_t_def)
qed

subsection \<open>Values stay in range\<close>

text \<open>
  C6. Every value stored in a circuit stays in {-1,0,1}: \<open>clamp_t\<close> maps every integer
  into that set (clamp 2 = 1, clamp (-5) = -1, clamp 0 = 0), a write through \<open>set_out\<close>
  stores the clamped value, wire resolution yields -1, 0 or 1 only, the constructors build
  components whose port values, switch value, latch state and probe observation are in
  range, and toggle, set_switch, step (and add and connect) keep all of them in range,
  also when they raise.
\<close>

theorem trit_invariant:
  "trit (clamp_t v) \<and> clamp_t 2 = 1 \<and> clamp_t (- 5) = - 1 \<and> clamp_t 0 = 0
   \<and> (fst (set_out n v cmp) = None \<longrightarrow> get_in n (snd (set_out n v cmp)) = Inr (clamp_t v))
   \<and> trit (resolve_wire ds)
   \<and> trit_component (SwitchBinary i v) \<and> trit_component (SwitchTernary i v)
   \<and> trit_component (TNOT i) \<and> trit_component (TAND i) \<and> trit_component (TNOR i)
   \<and> trit_component (Transistor i) \<and> trit_component (TLatch i)
   \<and> trit_component (Probe i) \<and> trit_component (TFullAdder i)
   \<and> trit_circuit Circuit_init
   \<and> (trit_component cmp \<longrightarrow> trit_component (snd (toggle cmp)))
   \<and> (trit_component cmp \<longrightarrow> trit_component (snd (step_c cmp)))
   \<and> (trit_circuit c \<longrightarrow> trit_component cmp \<longrightarrow> trit_circuit (snd (add cmp c)))
   \<and> (trit_circuit c \<longrightarrow> trit_circuit (snd (connect sc sp dc dp c)))
   \<and> (trit_circuit c \<longrightarrow> trit_circuit (snd (toggle_switch k c)))
   \<and> (trit_circuit c \<longrightarrow> trit_circuit (snd (set_switch k v c)))
   \<and> (trit_circuit c \<longrightarrow> trit_circuit (snd (step c)))"
proof -
  have clamps: "clamp_t 2 = 1 \<and> clamp_t (- 5) = - 1 \<and> clamp_t 0 = 0"
    by (simp add: clamp_t_def)
  have wr: "fst (set_out n v cmp) = None \<longrightarrow> get_in n (snd (set_out n v cmp)) = Inr (clamp_t v)"
    by (simp add: set_out_def get_in_set_port_value set_port_value_fst split: if_splits)
  have init: "trit_circuit Circuit_init"
    by (simp add: trit_circuit_def trit_comps_def Circuit_init_def)
  show ?thesis
    using clamps wr
    by (simp add: init trit_component_new toggle_trit step_c_trit add_trit connect_trit
          toggle_switch_trit set_switch_trit step_trit)
qed

theorem trit_invariant_witness:
  "fst (set_out ''out'' 7 (TNOT ''n'')) = None
   \<and> get_in ''out'' (snd (set_out ''out'' 7 (TNOT ''n''))) = Inr 1
   \<and> trit_component (TNOT ''n'')
   \<and> trit_component (snd (toggle (SwitchTernary ''s'' 7)))
   \<and> trit_component (snd (step_c (SwitchTernary ''s'' 7)))
   \<and> trit_circuit (snd smoke_circuit)
   \<and> trit_circuit (snd (add (TNOT ''n'') (snd smoke_circuit)))
   \<and> trit_circuit (snd (connect ''sw1'' ''out'' ''nowhere'' ''in'' (snd smoke_circuit)))
   \<and> trit_circuit (snd (toggle_switch ''sw1'' (snd smoke_circuit)))
   \<and> trit_circuit (snd (set_switch ''sw1'' 7 (snd smoke_circuit)))
   \<and> trit_circuit (snd (step (snd smoke_circuit)))"
proof -
  have a: "fst (set_out ''out'' 7 (TNOT ''n'')) = None" by code_simp
  have b: "trit_component (TNOT ''n'')" by code_simp
  have c: "trit_circuit (snd smoke_circuit)" by code_simp
  have d: "trit_component (SwitchTernary ''s'' 7)" by code_simp
  have e: "clamp_t 7 = 1" by (simp add: clamp_t_def)
  note t1 = trit_invariant [where n = "''out''" and v = 7 and cmp = "TNOT ''n''"
      and c = "snd smoke_circuit" and k = "''sw1''" and sc = "''sw1''" and sp = "''out''"
      and dc = "''nowhere''" and dp = "''in''"]
  note t2 = trit_invariant [where cmp = "SwitchTernary ''s'' 7"]
  show ?thesis
    using a b c d e t1 t2 by simp
qed

subsection \<open>The smoke test\<close>

text \<open>
  C7. The scenario of the smoke test: sw1 = 1 and sw2 = -1 (both SwitchTernary), and1, nor1,
  t1, l1 and p1, wired sw1.out to and1.in1, sw2.out to and1.in2, and1.out to t1.presence,
  sw1.out to t1.sign, t1.out to nor1.in1, sw2.out to nor1.in2, nor1.out to l1.in, sw1.out
  to l1.enable and l1.out to p1.in. After one step the probe p1 reads 0; after toggling
  sw1 (to -1) and sw2 (to 0) and stepping again, the probe p1 reads 0.
\<close>

theorem smoke_test_probe:
  "fst smoke_circuit = None
   \<and> fst (step (snd smoke_circuit)) = None
   \<and> get_probe ''p1'' (snd (step (snd smoke_circuit))) = Inr 0
   \<and> fst (run_calls [step, toggle_switch ''sw1'', toggle_switch ''sw2'']
             (snd smoke_circuit)) = None
   \<and> port_val (components (snd (run_calls [step, toggle_switch ''sw1'', toggle_switch ''sw2'']
             (snd smoke_circuit)))) ''sw1'' ''out'' = Some (- 1)
   \<and> port_val (components (snd (run_calls [step, toggle_switch ''sw1'', toggle_switch ''sw2'']
             (snd smoke_circuit)))) ''sw2'' ''out'' = Some 0
   \<and> fst (run_calls [step, toggle_switch ''sw1'', toggle_switch ''sw2'', step]
             (snd smoke_circuit)) = None
   \<and> get_probe ''p1'' (snd (run_calls [step, toggle_switch ''sw1'', toggle_switch ''sw2'', step]
             (snd smoke_circuit))) = Inr 0"
  by code_simp

subsection \<open>Adding a component\<close>

text \<open>
  C8. \<open>Circuit.add\<close> with a component whose id is already a key raises DuplicateIdError and
  leaves the circuit as it was, components and wires alike; with a fresh id it puts exactly
  that component under its id, after the others, and changes nothing else.
\<close>

theorem add_duplicate_or_insert:
  "(map_of (components c) (id_c cmp) \<noteq> None \<longrightarrow> add cmp c = (Some DuplicateIdError, c))
   \<and> (map_of (components c) (id_c cmp) = None \<longrightarrow>
        add cmp c = (None, c\<lparr>components := components c @ [(id_c cmp, cmp)]\<rparr>))"
proof -
  have "AList.update k v al = al @ [(k, v)]" if "map_of al k = None" for k :: string
    and v :: Component and al
    using that by (induction al) (auto split: if_splits)
  then show ?thesis
    by (simp add: add_def)
qed

theorem add_duplicate_or_insert_witness:
  "map_of (components (snd smoke_circuit)) (id_c (Probe ''p1'')) \<noteq> None
   \<and> add (Probe ''p1'') (snd smoke_circuit) = (Some DuplicateIdError, snd smoke_circuit)
   \<and> map_of (components (snd smoke_circuit)) (id_c (Probe ''p2'')) = None
   \<and> add (Probe ''p2'') (snd smoke_circuit) =
       (None, (snd smoke_circuit)\<lparr>components :=
          components (snd smoke_circuit) @ [(''p2'', Probe ''p2'')]\<rparr>)"
proof -
  have d: "map_of (components (snd smoke_circuit)) (id_c (Probe ''p1'')) \<noteq> None"
    by code_simp
  have f: "map_of (components (snd smoke_circuit)) (id_c (Probe ''p2'')) = None"
    by code_simp
  have i: "id_c (Probe ''p2'') = ''p2''"
    by (simp add: Probe_def)
  show ?thesis
    using d f i add_duplicate_or_insert [of "snd smoke_circuit" "Probe ''p1''"]
      add_duplicate_or_insert [of "snd smoke_circuit" "Probe ''p2''"]
    by simp
qed

subsection \<open>Unchecked wires\<close>

text \<open>
  C9. \<open>connect\<close> checks nothing and never raises: it appends exactly one wire with the
  given ends and changes nothing else. On a well-formed circuit \<open>step\<close> succeeds exactly
  when every wire names, at both ends, a port of a component of the circuit; otherwise it
  raises, and what it raises is the \<open>KeyError\<close> of a missing component or of a missing
  port. So a wire with a bad end is accepted by \<open>connect\<close> and makes the next \<open>step\<close> raise.
\<close>

theorem connect_unchecked_step_raises:
  "fst (connect sc sp dc dp c) = None
   \<and> snd (connect sc sp dc dp c) =
       c\<lparr>wires := wires c @
          [\<lparr>src_comp = sc, src_port = sp, dst_comp = dc, dst_port = dp\<rparr>]\<rparr>
   \<and> (wf_circuit c \<longrightarrow>
        (fst (step c) = None) = list_all (valid_wire (components c)) (wires c))
   \<and> (wf_circuit c \<longrightarrow>
        fst (step c) = None \<or> fst (step c) = Some UnknownComponentError
        \<or> fst (step c) = Some UnknownPortError)
   \<and> (wf_circuit c \<longrightarrow>
        \<not> valid_wire (components c)
            \<lparr>src_comp = sc, src_port = sp, dst_comp = dc, dst_port = dp\<rparr> \<longrightarrow>
        fst (step (snd (connect sc sp dc dp c))) \<noteq> None)"
proof -
  let ?w = "\<lparr>src_comp = sc, src_port = sp, dst_comp = dc, dst_port = dp\<rparr>"
  let ?c' = "snd (connect sc sp dc dp c)"
  have c': "?c' = c\<lparr>wires := wires c @ [?w]\<rparr>" "fst (connect sc sp dc dp c) = None"
    by (simp_all add: connect_def)
  have late: "fst (step ?c') \<noteq> None" if wf: "wf_circuit c" and bad: "\<not> valid_wire (components c) ?w"
  proof -
    have "wf_circuit ?c'" using wf by (simp add: c' wf_circuit_def)
    then have "(fst (step ?c') = None) = list_all (valid_wire (components ?c')) (wires ?c')"
      by (rule step_ok_iff)
    with bad show ?thesis by (simp add: c')
  qed
  show ?thesis
    using c' step_ok_iff [of c] step_error_kind [of c] late by blast
qed

theorem connect_unchecked_step_raises_witness:
  "wf_circuit (snd smoke_circuit)
   \<and> list_all (valid_wire (components (snd smoke_circuit))) (wires (snd smoke_circuit))
   \<and> fst (step (snd smoke_circuit)) = None
   \<and> \<not> valid_wire (components (snd smoke_circuit))
        \<lparr>src_comp = ''sw1'', src_port = ''out'', dst_comp = ''ghost'', dst_port = ''in''\<rparr>
   \<and> fst (connect ''sw1'' ''out'' ''ghost'' ''in'' (snd smoke_circuit)) = None
   \<and> fst (step (snd (connect ''sw1'' ''out'' ''ghost'' ''in'' (snd smoke_circuit)))) \<noteq> None"
proof -
  have wf: "wf_circuit (snd smoke_circuit)" by code_simp
  have ok: "list_all (valid_wire (components (snd smoke_circuit))) (wires (snd smoke_circuit))"
    by code_simp
  have bad: "\<not> valid_wire (components (snd smoke_circuit))
        \<lparr>src_comp = ''sw1'', src_port = ''out'', dst_comp = ''ghost'', dst_port = ''in''\<rparr>"
    by code_simp
  show ?thesis
    using wf ok bad
      connect_unchecked_step_raises [where c = "snd smoke_circuit" and sc = "''sw1''"
        and sp = "''out''" and dc = "''ghost''" and dp = "''in''"]
    by blast
qed

subsection \<open>What a call may change\<close>

text \<open>
  C10. Only add and connect change the structure of a circuit. After step, set_switch and
  a toggle the keys of the component dictionary in their order, the id, type and class of
  every component, the key, id and direction of every port and the list of wires are what
  they were, whether the call raised or not. get_probe is a function of the circuit alone:
  it has no state to return. Its result changes neither with set_switch, toggle, connect
  nor the adding of another component, and it is 0 for a probe that has just been added.
\<close>

theorem structure_frame:
  "structure_of (snd (step c)) = structure_of c
   \<and> structure_of (snd (set_switch k v c)) = structure_of c
   \<and> structure_of (snd (toggle_switch k c)) = structure_of c
   \<and> shape_c (snd (toggle cmp)) = shape_c cmp
   \<and> shape_c (snd (step_c cmp)) = shape_c cmp
   \<and> wf_circuit (snd (step c)) = wf_circuit c
   \<and> wf_circuit (snd (set_switch k v c)) = wf_circuit c
   \<and> wf_circuit (snd (toggle_switch k c)) = wf_circuit c
   \<and> get_probe k' (snd (set_switch k v c)) = get_probe k' c
   \<and> get_probe k' (snd (toggle_switch k c)) = get_probe k' c
   \<and> get_probe k' (snd (connect sc sp dc dp c)) = get_probe k' c
   \<and> (id_c cmp \<noteq> k' \<longrightarrow> get_probe k' (snd (add cmp c)) = get_probe k' c)
   \<and> (fst (add (Probe i) c) = None \<longrightarrow> get_probe i (snd (add (Probe i) c)) = Inr 0)"
  using get_probe_add_Probe [of i c] get_probe_add_other [of cmp k' c]
  by (simp add: structure_of_def get_probe_set_switch get_probe_toggle_switch get_probe_connect)

theorem structure_frame_witness:
  "fst (add (Probe ''p2'') (snd smoke_circuit)) = None
   \<and> get_probe ''p2'' (snd (add (Probe ''p2'') (snd smoke_circuit))) = Inr 0
   \<and> structure_of (snd (step (snd smoke_circuit))) = structure_of (snd smoke_circuit)"
proof -
  have a: "fst (add (Probe ''p2'') (snd smoke_circuit)) = None" by code_simp
  show ?thesis
    using a structure_frame [where i = "''p2''" and c = "snd smoke_circuit"
        and cmp = "TNOT ''n''" and k' = "''p1''"]
    by simp
qed

end
